theory Spec2Isabelle
  imports Main
begin

section \<open>Data model (types.ts)\<close>

text \<open>
  The enums of types.ts. The rank enum and the suit enum both have a member JOKER;
  the rank's is written \<open>RJOKER\<close> here.
\<close>

datatype Suit = HEARTS | DIAMONDS | CLUBS | SPADES | JOKER

datatype Rank = ACE | TWO | THREE | FOUR | FIVE | SIX | SEVEN | EIGHT | NINE | TEN
  | JACK | QUEEN | KING | RJOKER

text \<open>
  Interface Card. The fields \<open>id\<close> and \<open>value\<close> are written \<open>id_c\<close> and
  \<open>value_c\<close>. Numbers are integers; the optional field representedCard is never
  written or read by the code and is left out.
\<close>

record Card =
  id_c :: string
  suit :: Suit
  rank :: Rank
  value_c :: int
  sortValue :: int
  isJoker :: bool

record Player =
  id_p :: nat
  name :: string
  hand :: "Card list"
  isHuman :: bool
  score :: int
  hasKnocked :: bool
  melds :: "Card list list"

record BoardSequence =
  suit_s :: Suit
  low :: int
  high :: int
  hasSeven :: bool

record JokerDeclaration =
  cardId :: string
  representedSuit :: Suit
  representedRank :: Rank

text \<open>\<open>Record<Suit, BoardSequence>\<close>: one sequence for each member of the suit enum.\<close>

type_synonym Sequences = "Suit \<Rightarrow> BoardSequence"

text \<open>What JavaScript raises when a property of \<open>undefined\<close> is read.\<close>

datatype js_error = TypeError

section \<open>constants.ts\<close>

definition MAX_SCORE :: int where
  "MAX_SCORE = 250"

definition SUITS :: "Suit list" where
  "SUITS = [HEARTS, DIAMONDS, CLUBS, SPADES]"

definition RANKS :: "Rank list" where
  "RANKS = [ACE, TWO, THREE, FOUR, FIVE, SIX, SEVEN, EIGHT, NINE, TEN, JACK, QUEEN, KING]"

text \<open>\<open>RANKS.indexOf(rank)\<close>: the first index of the rank, -1 when it is absent.\<close>

fun indexOf :: "'a list \<Rightarrow> 'a \<Rightarrow> int" where
  "indexOf [] x = -1"
| "indexOf (y # ys) x =
     (if y = x then 0 else (let i = indexOf ys x in if i < 0 then -1 else i + 1))"

definition getSortValue :: "Rank \<Rightarrow> int" where
  "getSortValue r = (if r = RJOKER then 99 else indexOf RANKS r + 1)"

text \<open>\<open>RANKS[i]\<close> for a number \<open>i\<close>: \<open>undefined\<close> outside the array.\<close>

definition ranksAt :: "int \<Rightarrow> Rank option" where
  "ranksAt i = (if 0 \<le> i \<and> i < int (length RANKS) then Some (RANKS ! nat i) else None)"

text \<open>
  getPoints. \<open>parseInt(rank)\<close> is reached by the numerals only (their enum values are
  the decimal strings '2' to '10'); no other rank reaches it.
\<close>

definition parseInt :: "Rank \<Rightarrow> int" where
  "parseInt r = (case r of TWO \<Rightarrow> 2 | THREE \<Rightarrow> 3 | FOUR \<Rightarrow> 4 | FIVE \<Rightarrow> 5
     | SIX \<Rightarrow> 6 | SEVEN \<Rightarrow> 7 | EIGHT \<Rightarrow> 8 | NINE \<Rightarrow> 9 | TEN \<Rightarrow> 10 | _ \<Rightarrow> 0)"

definition getPoints :: "Rank \<Rightarrow> int" where
  "getPoints r =
     (if r = RJOKER then 30
      else if r = SEVEN then 15
      else if r \<in> set [JACK, QUEEN, KING] then 10
      else if r = ACE then 1
      else parseInt r)"

section \<open>utils/gameLogic.ts\<close>

text \<open>
  mkCard of setupTutorialGame; the identifier, random in the source, is a parameter.
\<close>

definition mkCard :: "string \<Rightarrow> Suit \<Rightarrow> Rank \<Rightarrow> bool \<Rightarrow> Card" where
  "mkCard i s r j =
     \<lparr>id_c = i, suit = s, rank = r, value_c = getPoints r, sortValue = getSortValue r,
      isJoker = j\<rparr>"

text \<open>The board every game and every round starts from (startGame, startNextRound).\<close>

definition initialSequences :: Sequences where
  "initialSequences s =
     (case s of
        HEARTS \<Rightarrow> \<lparr>suit_s = HEARTS, low = 7, high = 7, hasSeven = False\<rparr>
      | DIAMONDS \<Rightarrow> \<lparr>suit_s = DIAMONDS, low = 7, high = 7, hasSeven = False\<rparr>
      | CLUBS \<Rightarrow> \<lparr>suit_s = CLUBS, low = 7, high = 7, hasSeven = False\<rparr>
      | SPADES \<Rightarrow> \<lparr>suit_s = SPADES, low = 7, high = 7, hasSeven = False\<rparr>
      | JOKER \<Rightarrow> \<lparr>suit_s = JOKER, low = 0, high = 0, hasSeven = False\<rparr>)"

definition canPlayOnBoard :: "Card \<Rightarrow> Sequences \<Rightarrow> bool" where
  "canPlayOnBoard c sequences =
     (if isJoker c then True
      else if rank c = SEVEN then \<not> hasSeven (sequences (suit c))
      else (let seq = sequences (suit c) in
            if \<not> hasSeven seq then False
            else (let val = sortValue c in val = high seq + 1 \<or> val = low seq - 1)))"

definition getPlayableCards :: "Card list \<Rightarrow> Sequences \<Rightarrow> Card list" where
  "getPlayableCards h sequences = filter (\<lambda>c. canPlayOnBoard c sequences) h"

definition calculateHandPoints :: "Card list \<Rightarrow> int" where
  "calculateHandPoints h = foldl (\<lambda>sum c. sum + value_c c) 0 h"

text \<open>
  applyFinalScores, in the order of the source: the round scores (hand points, then the
  joker penalty accumulated card by card), the knocker's score (\<open>undefined\<close> when the
  index is outside the array), the undercut flag set by a pass over all indices, and the
  copy of the players with the scores added.
\<close>

definition isDeclared :: "JokerDeclaration list \<Rightarrow> Card \<Rightarrow> bool" where
  "isDeclared decls c =
     list_ex (\<lambda>decl. representedRank decl = rank c \<and> representedSuit decl = suit c) decls"

definition roundScore :: "JokerDeclaration list \<Rightarrow> Player \<Rightarrow> int" where
  "roundScore decls p =
     foldl (\<lambda>pts c. if \<not> isJoker c then (if isDeclared decls c then pts + 30 else pts) else pts)
       (calculateHandPoints (hand p)) (hand p)"

definition roundScores :: "JokerDeclaration list \<Rightarrow> Player list \<Rightarrow> int list" where
  "roundScores decls ps = map (roundScore decls) ps"

definition at_index :: "'a list \<Rightarrow> nat \<Rightarrow> 'a option" where
  "at_index xs i = (if i < length xs then Some (xs ! i) else None)"

text \<open>\<open>a <= b\<close> where \<open>b\<close> may be \<open>undefined\<close>: the comparison is then false.\<close>

definition le_undefined :: "int \<Rightarrow> int option \<Rightarrow> bool" where
  "le_undefined a b = (case b of None \<Rightarrow> False | Some b' \<Rightarrow> a \<le> b')"

definition undercut :: "Player list \<Rightarrow> nat \<Rightarrow> JokerDeclaration list \<Rightarrow> bool" where
  "undercut ps knockerIndex decls =
     (let rs = roundScores decls ps; knockerScore = at_index rs knockerIndex in
      foldl (\<lambda>u i. if i \<noteq> knockerIndex \<and> le_undefined (rs ! i) knockerScore then True else u)
        False [0..<length ps])"

definition applyFinalScores ::
  "Player list \<Rightarrow> nat \<Rightarrow> JokerDeclaration list \<Rightarrow> js_error + Player list" where
  "applyFinalScores ps knockerIndex decls =
     (let rs = roundScores decls ps in
      if undercut ps knockerIndex decls then
        (let totalPoints = foldl (\<lambda>a b. a + b) 0 rs in
         case at_index ps knockerIndex of
           None \<Rightarrow> Inl TypeError
         | Some k \<Rightarrow> Inr (ps[knockerIndex := k\<lparr>score := score k + totalPoints\<rparr>]))
      else Inr (map (\<lambda>(p, r). p\<lparr>score := score p + r\<rparr>) (zip ps rs)))"

section \<open>App.tsx: the state\<close>

text \<open>
  The game state of types.ts and the React state of the App component that the handlers
  read and write. The message log (\<open>logs\<close>, and every \<open>addLog\<close>), the flags that
  show or hide a dialog, the hint text and the timers are presentation and are left out;
  no branch of the handlers reads them. Optional fields: an absent \<open>isTutorial\<close> is
  False and an absent \<open>tutorialStep\<close> is 0, as \<open>tutorialStep || 0\<close> reads it.
\<close>

datatype TurnPhase = ACTION | DRAW | DISCARD | GAME_OVER | ROUND_OVER

record PendingPong =
  card_pp :: Card
  discarderIndex :: nat

record GameState =
  players :: "Player list"
  currentPlayerIndex :: nat
  deck :: "Card list"
  discardPile :: "Card list"
  boardSequences :: Sequences
  turnPhase :: TurnPhase
  round_g :: nat
  winner :: "Player option"
  pendingPong :: "PendingPong option"
  jokerDeclarations :: "JokerDeclaration list"
  isTutorial :: bool
  tutorialStep :: nat

datatype MeldType = MELD | PONG

record PendingMeldAction =
  type_m :: MeldType
  cards :: "Card list"
  naturalRank :: "Rank option"
  jokersCount :: nat

record RoundSummary =
  roundPoints :: "int list"
  previousScores :: "int list"
  updatedPlayers :: "Player list"
  knockerIndex :: nat

record AppState =
  gameState :: "GameState option"
  selectedCards :: "string list"
  pendingSingleJokerMove :: "Card option"
  pendingMeldAction :: "PendingMeldAction option"
  roundSummary :: "RoundSummary option"
  gameStarted :: bool

text \<open>The \<open>action\<close> fields of TUTORIAL_STEPS, in order.\<close>

datatype TutorialAction = PLAY_7 | PLAY_8 | DRAW_STEP | DISCARD_K | WAIT | PONG_STEP
  | PLAY_JOKER | KNOCK

definition TUTORIAL_STEPS :: "TutorialAction list" where
  "TUTORIAL_STEPS = [PLAY_7, PLAY_8, DRAW_STEP, DISCARD_K, WAIT, PONG_STEP, PLAY_JOKER, KNOCK]"

text \<open>\<open>xs.map((p, i) => i === k ? f(p) : p)\<close>\<close>

fun mapAt :: "nat \<Rightarrow> ('a \<Rightarrow> 'a) \<Rightarrow> 'a list \<Rightarrow> 'a list" where
  "mapAt k f [] = []"
| "mapAt 0 f (x # xs) = f x # xs"
| "mapAt (Suc k) f (x # xs) = x # mapAt k f xs"

text \<open>\<open>isTutorial ? (tutorialStep || 0) + 1 : tutorialStep\<close>\<close>

definition nextStep :: "GameState \<Rightarrow> nat" where
  "nextStep gs = (if isTutorial gs then tutorialStep gs + 1 else tutorialStep gs)"

text \<open>
  The two assignments that extend a sequence by a sort value, shared by the human path,
  the joker confirmation and the bot:
  \<open>if (v === seq.high + 1) seq.high = v; if (v === seq.low - 1) seq.low = v;\<close>
\<close>

definition extendSeq :: "BoardSequence \<Rightarrow> int \<Rightarrow> BoardSequence" where
  "extendSeq seq v =
     (let seq1 = (if v = high seq + 1 then seq\<lparr>high := v\<rparr> else seq) in
      if v = low seq1 - 1 then seq1\<lparr>low := v\<rparr> else seq1)"

text \<open>
  What one extension does to a sequence that has its seven: the seven stays inside, one
  of the two ends moves outward by one and the other stays, so the span grows by one.
\<close>

definition grownByOne :: "BoardSequence \<Rightarrow> BoardSequence \<Rightarrow> bool" where
  "grownByOne seq seq' \<longleftrightarrow>
     hasSeven seq' \<and> low seq' \<le> 7 \<and> 7 \<le> high seq' \<and>
     (high seq' = high seq + 1 \<and> low seq' = low seq \<or>
      low seq' = low seq - 1 \<and> high seq' = high seq) \<and>
     high seq' - low seq' = high seq - low seq + 1"

text \<open>
  The state of the four suits of SUITS on a board the game has produced: a suit without
  its seven still stands at the seed 7/7, and a suit with its seven has the seven between
  its ends.
\<close>

definition seeded :: "Sequences \<Rightarrow> bool" where
  "seeded seqs \<longleftrightarrow>
     (\<forall>s \<in> set SUITS.
        if hasSeven (seqs s) then low (seqs s) \<le> 7 \<and> 7 \<le> high (seqs s)
        else low (seqs s) = 7 \<and> high (seqs s) = 7)"

section \<open>App.tsx: playSelectedCards\<close>

text \<open>
  The tutorial interception at the head of playSelectedCards: Inr True to go on, Inr False
  for its early returns, TypeError when there is no player 0 or no tutorial step to read.
\<close>

definition tutorialInterception :: "GameState \<Rightarrow> string list \<Rightarrow> js_error + bool" where
  "tutorialInterception gs sel =
     (if \<not> isTutorial gs then Inr True
      else (case players gs of
        [] \<Rightarrow> Inl TypeError
      | p0 # _ \<Rightarrow>
         (case find (\<lambda>c. id_c c = hd sel) (hand p0) of
            None \<Rightarrow> Inr False
          | Some c \<Rightarrow>
             (case at_index TUTORIAL_STEPS (tutorialStep gs) of
                None \<Rightarrow> Inl TypeError
              | Some action \<Rightarrow>
                 if action = PLAY_7 then Inr (\<not> (rank c \<noteq> SEVEN \<or> suit c \<noteq> HEARTS))
                 else if action = PLAY_8 then Inr (\<not> (rank c \<noteq> EIGHT \<or> suit c \<noteq> HEARTS))
                 else if action = PLAY_JOKER then Inr (isJoker c)
                 else Inr False))))"

text \<open>Case A for a card that is not a joker: the new sequences when the play is valid.\<close>

definition standardCardPlay :: "Card \<Rightarrow> Sequences \<Rightarrow> Sequences option" where
  "standardCardPlay c seqs =
     (if rank c = SEVEN \<and> \<not> hasSeven (seqs (suit c))
      then Some (seqs(suit c := (seqs (suit c))\<lparr>hasSeven := True\<rparr>))
      else if canPlayOnBoard c seqs
      then Some (seqs(suit c := extendSeq (seqs (suit c)) (sortValue c)))
      else None)"

text \<open>Case B, a selection of three cards.\<close>

definition meldSelected :: "AppState \<Rightarrow> GameState \<Rightarrow> Player \<Rightarrow> Card list \<Rightarrow> AppState" where
  "meldSelected app gs player cardsToPlay =
     (if isTutorial gs then app
      else
        (let nonJokers = filter (\<lambda>c. \<not> isJoker c) cardsToPlay;
             jokers = filter isJoker cardsToPlay in
         (case nonJokers of
           [] \<Rightarrow> app\<lparr>pendingMeldAction :=
                   Some \<lparr>type_m = MELD, cards = cardsToPlay, naturalRank = None, jokersCount = 3\<rparr>\<rparr>
         | n0 # _ \<Rightarrow>
            (let targetRank = rank n0 in
             if \<not> list_all (\<lambda>c. rank c = targetRank) nonJokers then app
             else if targetRank = SEVEN \<and> length jokers > 0 then app
             else if length jokers > 0 then
               app\<lparr>pendingMeldAction :=
                   Some \<lparr>type_m = MELD, cards = cardsToPlay, naturalRank = Some targetRank,
                         jokersCount = length jokers\<rparr>\<rparr>
             else
               (let newHand = filter (\<lambda>c. id_c c \<notin> set (selectedCards app)) (hand player);
                    newMelds = melds player @ [cardsToPlay] in
                app\<lparr>gameState := Some (gs\<lparr>players :=
                        mapAt 0 (\<lambda>p. p\<lparr>hand := newHand, melds := newMelds\<rparr>) (players gs)\<rparr>),
                    selectedCards := []\<rparr>)))))"

definition playSelectedCards :: "AppState \<Rightarrow> js_error + AppState" where
  "playSelectedCards app =
     (case gameState app of
        None \<Rightarrow> Inr app
      | Some gs \<Rightarrow>
         if length (selectedCards app) = 0 then Inr app
         else (case tutorialInterception gs (selectedCards app) of
           Inl e \<Rightarrow> Inl e
         | Inr False \<Rightarrow> Inr app
         | Inr True \<Rightarrow>
            (case players gs of
               [] \<Rightarrow> Inl TypeError
             | player # _ \<Rightarrow>
                (let cardsToPlay = filter (\<lambda>c. id_c c \<in> set (selectedCards app)) (hand player) in
                 case (if length cardsToPlay = 1 then Some (hd cardsToPlay) else None) of
                   Some c \<Rightarrow>
                    if isJoker c then
                      (let playableSuits =
                             filter (\<lambda>s. s \<noteq> JOKER \<and> hasSeven (boardSequences gs s)) SUITS in
                       if length playableSuits = 0 then Inr app
                       else Inr (app\<lparr>pendingSingleJokerMove := Some c\<rparr>))
                    else
                      (case standardCardPlay c (boardSequences gs) of
                         Some newSequences \<Rightarrow>
                          (let newHand = filter (\<lambda>x. id_c x \<noteq> id_c c) (hand player) in
                           Inr (app\<lparr>gameState := Some (gs\<lparr>players :=
                                       mapAt 0 (\<lambda>p. p\<lparr>hand := newHand\<rparr>) (players gs),
                                     boardSequences := newSequences,
                                     tutorialStep := nextStep gs\<rparr>),
                                   selectedCards := []\<rparr>))
                       | None \<Rightarrow> Inr app)
                 | None \<Rightarrow>
                    if length cardsToPlay = 3 then Inr (meldSelected app gs player cardsToPlay)
                    else Inr app))))"

section \<open>App.tsx: confirmSingleJokerMove and the options its dialog offers\<close>

definition confirmSingleJokerMove :: "AppState \<Rightarrow> Suit \<Rightarrow> Rank \<Rightarrow> js_error + AppState" where
  "confirmSingleJokerMove app declaredSuit declaredRank =
     (case gameState app of
        None \<Rightarrow> Inr app
      | Some gs \<Rightarrow>
         (case pendingSingleJokerMove app of
            None \<Rightarrow> Inr app
          | Some c \<Rightarrow>
             if declaredRank = SEVEN then Inr app
             else
               (let newSequences = (boardSequences gs)(declaredSuit :=
                      extendSeq (boardSequences gs declaredSuit) (getSortValue declaredRank)) in
                (case players gs of
                  [] \<Rightarrow> Inl TypeError
                | player # _ \<Rightarrow>
                   (let newHand = filter (\<lambda>x. id_c x \<noteq> id_c c) (hand player);
                        newDeclaration = \<lparr>cardId = id_c c, representedSuit = declaredSuit,
                                          representedRank = declaredRank\<rparr> in
                    Inr (app\<lparr>gameState := Some (gs\<lparr>players :=
                                mapAt 0 (\<lambda>p. p\<lparr>hand := newHand\<rparr>) (players gs),
                              boardSequences := newSequences,
                              jokerDeclarations := jokerDeclarations gs @ [newDeclaration],
                              tutorialStep := nextStep gs\<rparr>),
                            pendingSingleJokerMove := None,
                            selectedCards := []\<rparr>))))))"

text \<open>
  The buttons of the "Declare Joker" dialog, in the order in which they are rendered: for
  every suit of SUITS with its seven, \<open>opts\<close> receives \<open>{rank: RANKS[lowVal-1]}\<close> when
  \<open>lowVal >= 1\<close> and \<open>{rank: RANKS[highVal-1]}\<close> when \<open>highVal <= 13\<close>, and
  \<open>opts.filter(o => o.rank !== Rank.SEVEN)\<close> keeps what is not a seven. The rank of an
  option is \<open>undefined\<close> (None here) when the index lies outside RANKS; such an option is
  pushed all the same, passes the filter, and is rendered as a button.
\<close>

definition jokerOptionsOf :: "Sequences \<Rightarrow> Suit \<Rightarrow> (Suit \<times> Rank option) list" where
  "jokerOptionsOf seqs s =
     (let seq = seqs s; lowVal = low seq - 1; highVal = high seq + 1;
          opts = (if lowVal \<ge> 1 then [ranksAt (lowVal - 1)] else [])
               @ (if highVal \<le> 13 then [ranksAt (highVal - 1)] else []);
          validOpts = filter (\<lambda>r. r \<noteq> Some SEVEN) opts in
      map (\<lambda>r. (s, r)) validOpts)"

definition jokerOptions :: "Sequences \<Rightarrow> (Suit \<times> Rank option) list" where
  "jokerOptions seqs =
     concat (map (jokerOptionsOf seqs) (filter (\<lambda>s. s \<noteq> JOKER \<and> hasSeven (seqs s)) SUITS))"

text \<open>
  The dialog as an operation. The button of an option is the only place that calls
  confirmSingleJokerMove (\<open>onClick={() => confirmSingleJokerMove(s, opt.rank)}\<close>), so the
  player declares the identity \<open>(s, r)\<close> by clicking the button rendered for it, and an
  identity for which no button is rendered cannot be submitted: nothing happens.
  Rendering the dialog reads \<open>gameState!.boardSequences\<close>, a TypeError when there is no
  game. The dialog is rendered only while showSingleJokerModal is set; that flag is not
  part of the state here, so this operation allows the click in more states than the code
  does. The operation covers the buttons that carry a rank; a button whose rank is
  \<open>undefined\<close> needs a sequence with \<open>low \<ge> 15\<close> or \<open>high \<le> -1\<close>, and no seeded board has
  one (lemma \<open>jokerOptions_defined\<close>).
\<close>

definition declareJokerInDialog :: "AppState \<Rightarrow> Suit \<Rightarrow> Rank \<Rightarrow> js_error + AppState" where
  "declareJokerInDialog app s r =
     (case gameState app of
        None \<Rightarrow> Inl TypeError
      | Some gs \<Rightarrow>
         if (s, Some r) \<in> set (jokerOptions (boardSequences gs))
         then confirmSingleJokerMove app s r
         else Inr app)"

section \<open>App.tsx: doPong and cancelPong\<close>

text \<open>
  cancelPong clears the pending claim; in the tutorial it leaves the game state alone
  (it logs and shows the dialog again after a second).
\<close>

definition cancelPong :: "AppState \<Rightarrow> AppState" where
  "cancelPong app =
     (case gameState app of
        None \<Rightarrow> app
      | Some gs \<Rightarrow>
         if isTutorial gs then app
         else app\<lparr>gameState := Some (gs\<lparr>pendingPong := None\<rparr>)\<rparr>)"

text \<open>
  The cards of the hand that doPong uses, as positions in the hand (the source holds
  references to the card objects and removes them with \<open>includes\<close>, which compares
  references): the first two natural matches; or the one natural match and the first
  joker; or the first two jokers. With one natural match and no joker the second element
  is \<open>undefined\<close>, and reading its \<open>isJoker\<close> raises a TypeError before any state is set.
\<close>

definition positionsWhere :: "('a \<Rightarrow> bool) \<Rightarrow> 'a list \<Rightarrow> nat list" where
  "positionsWhere P xs = filter (\<lambda>i. P (xs ! i)) [0..<length xs]"

definition cardsToUseAt :: "Card list \<Rightarrow> Card \<Rightarrow> js_error + nat list" where
  "cardsToUseAt h discard =
     (let naturalMatches = positionsWhere (\<lambda>c. rank c = rank discard \<and> \<not> isJoker c) h;
          jokers = positionsWhere isJoker h in
      if length naturalMatches \<ge> 2 then Inr (take 2 naturalMatches)
      else if length naturalMatches = 1 then
        (case jokers of [] \<Rightarrow> Inl TypeError | j # _ \<Rightarrow> Inr [hd naturalMatches, j])
      else Inr (take 2 jokers))"

definition doPong :: "AppState \<Rightarrow> js_error + AppState" where
  "doPong app =
     (case gameState app of
        None \<Rightarrow> Inr app
      | Some gs \<Rightarrow>
         (case pendingPong gs of
            None \<Rightarrow> Inr app
          | Some pp \<Rightarrow>
             (case players gs of
                [] \<Rightarrow> Inl TypeError
              | human # _ \<Rightarrow>
                 (let discard = card_pp pp in
                  case cardsToUseAt (hand human) discard of
                    Inl e \<Rightarrow> Inl e
                  | Inr usedAt \<Rightarrow>
                     (let cardsToUse = map (\<lambda>i. hand human ! i) usedAt;
                          jokersInvolved = filter isJoker cardsToUse;
                          totalCards = cardsToUse @ [discard] in
                      if rank discard = SEVEN \<and> length jokersInvolved > 0 then Inr (cancelPong app)
                      else if length jokersInvolved > 0 then
                        Inr (app\<lparr>pendingMeldAction :=
                          Some \<lparr>type_m = PONG, cards = totalCards,
                                naturalRank = Some (rank discard),
                                jokersCount = length jokersInvolved\<rparr>\<rparr>)
                      else
                        (let newHand = map (\<lambda>i. hand human ! i)
                               (filter (\<lambda>i. i \<notin> set usedAt) [0..<length (hand human)]);
                             newMeld = totalCards in
                         Inr (app\<lparr>gameState := Some (gs\<lparr>players :=
                                 mapAt 0 (\<lambda>p. p\<lparr>hand := newHand, melds := melds p @ [newMeld]\<rparr>)
                                   (players gs),
                               discardPile := drop 1 (discardPile gs),
                               currentPlayerIndex := 0,
                               turnPhase := ACTION,
                               pendingPong := None,
                               tutorialStep := nextStep gs\<rparr>)\<rparr>)))))))"

section \<open>App.tsx: processRoundEnd, handleKnock, startNextRound\<close>

definition processRoundEnd :: "AppState \<Rightarrow> Player list \<Rightarrow> nat \<Rightarrow> js_error + AppState" where
  "processRoundEnd app currentPlayers knockerIdx =
     (case gameState app of
        None \<Rightarrow> Inr app
      | Some gs \<Rightarrow>
         (let previousScores' = map score currentPlayers in
          case applyFinalScores currentPlayers knockerIdx (jokerDeclarations gs) of
            Inl e \<Rightarrow> Inl e
          | Inr updatedPlayers' \<Rightarrow>
             (let roundPoints' = map (\<lambda>(p, prev). score p - prev) (zip updatedPlayers' previousScores') in
              case at_index currentPlayers knockerIdx of
                None \<Rightarrow> Inl TypeError
              | Some _ \<Rightarrow>
                 Inr (app\<lparr>gameState := Some (gs\<lparr>players := updatedPlayers', turnPhase := ROUND_OVER\<rparr>),
                         roundSummary := Some \<lparr>roundPoints = roundPoints',
                           previousScores = previousScores', updatedPlayers = updatedPlayers',
                           knockerIndex = knockerIdx\<rparr>\<rparr>))))"

definition handleKnock :: "AppState \<Rightarrow> js_error + AppState" where
  "handleKnock app =
     (case gameState app of
        None \<Rightarrow> Inr app
      | Some gs \<Rightarrow>
         (case players gs of
            [] \<Rightarrow> Inl TypeError
          | player # _ \<Rightarrow>
             (let points = calculateHandPoints (hand player) in
              if isTutorial gs then
                (case at_index TUTORIAL_STEPS (tutorialStep gs) of
                   None \<Rightarrow> Inl TypeError
                 | Some action \<Rightarrow>
                    if action \<noteq> KNOCK then Inr app
                    else processRoundEnd app (players gs) 0)
              else if points > 5 then Inr app
              else processRoundEnd app (players gs) 0)))"

text \<open>
  Dealing at the start of a round: each player in turn takes seven cards off the front of
  the deck, sorted by sort value (the sort is stable), and loses the melds.
\<close>

fun deal :: "Player list \<Rightarrow> Card list \<Rightarrow> Player list \<times> Card list" where
  "deal [] d = ([], d)"
| "deal (p # ps) d =
     (let h = sort_key sortValue (take 7 d);
          (ps', d') = deal ps (drop 7 d) in
      (p\<lparr>hand := h, melds := []\<rparr> # ps', d'))"

text \<open>
  \<open>xs.reduce(f)\<close> with no initial value: the first element starts the accumulator, and
  an empty array raises a TypeError.
\<close>

definition reduce :: "('a \<Rightarrow> 'a \<Rightarrow> 'a) \<Rightarrow> 'a list \<Rightarrow> js_error + 'a" where
  "reduce f xs = (case xs of [] \<Rightarrow> Inl TypeError | x # rest \<Rightarrow> Inr (foldl f x rest))"

text \<open>
  startNextRound. The result of \<open>createDeck(updatedPlayers.length)\<close>, a shuffled deck,
  is the parameter \<open>shuffled\<close>. The player list is never empty (startGame builds two to
  six players); for an empty list JavaScript's \<open>%\<close> would give NaN, which a natural
  number does not represent.
\<close>

definition startNextRound :: "AppState \<Rightarrow> Card list \<Rightarrow> js_error + AppState" where
  "startNextRound app shuffled =
     (case gameState app of
        None \<Rightarrow> Inr app
      | Some gs \<Rightarrow>
         (case roundSummary app of
            None \<Rightarrow> Inr app
          | Some summary \<Rightarrow>
             if isTutorial gs then Inr (app\<lparr>gameState := None, gameStarted := False\<rparr>)
             else
               (let updated = updatedPlayers summary;
                    isGameOver = list_ex (\<lambda>p. score p \<ge> MAX_SCORE) updated in
                if isGameOver then
                  (case reduce (\<lambda>prev curr. if score prev < score curr then prev else curr) updated of
                     Inl e \<Rightarrow> Inl e
                   | Inr w \<Rightarrow>
                      Inr (app\<lparr>gameState := Some (gs\<lparr>winner := Some w, turnPhase := GAME_OVER\<rparr>),
                              roundSummary := None\<rparr>))
                else
                  (let (dealt, newDeck) = deal updated shuffled in
                   Inr (app\<lparr>gameState := Some
                          \<lparr>players = dealt,
                           currentPlayerIndex = round_g gs mod length updated,
                           deck = newDeck,
                           discardPile = [],
                           boardSequences = initialSequences,
                           turnPhase = ACTION,
                           round_g = round_g gs + 1,
                           winner = None,
                           pendingPong = None,
                           jokerDeclarations = [],
                           isTutorial = False,
                           tutorialStep = 0\<rparr>,
                         roundSummary := None\<rparr>)))))"

section \<open>App.tsx: the bot\<close>

text \<open>The local variables of botTurn that its play loop updates.\<close>

record BotState =
  newHand :: "Card list"
  newMelds :: "Card list list"
  newSequences :: Sequences
  newJokerDeclarations :: "JokerDeclaration list"
  movesMade :: nat

text \<open>
  \<open>for (const r in rankCounts)\<close> visits the keys of the object: first the keys that are
  array indices (the enum values '2' to '10'), in ascending numeric order, then the other
  keys ('A', 'J', 'Q', 'K', 'JOKER') in the order in which they were first inserted.
\<close>

definition forInKeys :: "Rank list \<Rightarrow> Rank list" where
  "forInKeys rs =
     (let numerals = [TWO, THREE, FOUR, FIVE, SIX, SEVEN, EIGHT, NINE, TEN] in
      filter (\<lambda>r. r \<in> set rs) numerals
        @ rev (remdups (rev (filter (\<lambda>r. r \<notin> set numerals) rs))))"

text \<open>Step 1 of the loop body: meld three naturals of the first rank that has three.\<close>

definition botMeld :: "BotState \<Rightarrow> BotState option" where
  "botMeld st =
     (let naturals = filter (\<lambda>c. \<not> isJoker c) (newHand st);
          rankCounts = (\<lambda>r. filter (\<lambda>c. rank c = r) naturals) in
      case find (\<lambda>r. length (rankCounts r) \<ge> 3) (forInKeys (map rank naturals)) of
        None \<Rightarrow> None
      | Some r \<Rightarrow>
         (let meldCards = take 3 (rankCounts r);
              idsToRemove = map id_c meldCards in
          Some (st\<lparr>newMelds := newMelds st @ [meldCards],
                  newHand := filter (\<lambda>c. id_c c \<notin> set idsToRemove) (newHand st),
                  movesMade := movesMade st + 1\<rparr>)))"

text \<open>The rank the bot declares for a joker on a sequence, when there is one.\<close>

definition jokerTarget :: "BoardSequence \<Rightarrow> Rank option" where
  "jokerTarget seq =
     (if high seq < 13 then ranksAt (high seq)
      else if low seq > 1 then ranksAt (low seq - 2)
      else None)"

text \<open>The loop over validSuits: the first suit with a target rank that is not a seven.\<close>

fun placeJoker :: "Card \<Rightarrow> Suit list \<Rightarrow> Sequences \<Rightarrow> (Sequences \<times> JokerDeclaration) option" where
  "placeJoker c [] seqs = None"
| "placeJoker c (s # validSuits) seqs =
     (let seq = seqs s in
      case jokerTarget seq of
        None \<Rightarrow> placeJoker c validSuits seqs
      | Some targetRank \<Rightarrow>
         if targetRank \<noteq> SEVEN then
           Some (seqs(s := (if getSortValue targetRank > high seq
                           then seq\<lparr>high := getSortValue targetRank\<rparr>
                           else seq\<lparr>low := getSortValue targetRank\<rparr>)),
                 \<lparr>cardId = id_c c, representedSuit = s, representedRank = targetRank\<rparr>)
         else placeJoker c validSuits seqs)"

text \<open>
  Step 2 of the loop body, the scan \<open>for (i = 0; i < newHand.length; i++)\<close>: \<open>before\<close>
  holds the cards already passed over, and the first card that can be played is removed
  from the hand (\<open>splice(i, 1)\<close>).
\<close>

fun playIndividual ::
  "Card list \<Rightarrow> Card list \<Rightarrow> Sequences \<Rightarrow> JokerDeclaration list
     \<Rightarrow> (Card list \<times> Sequences \<times> JokerDeclaration list) option" where
  "playIndividual before [] seqs decls = None"
| "playIndividual before (c # rest) seqs decls =
     (if \<not> isJoker c then
        (if rank c = SEVEN \<and> \<not> hasSeven (seqs (suit c)) then
           Some (before @ rest, seqs(suit c := (seqs (suit c))\<lparr>hasSeven := True\<rparr>), decls)
         else if canPlayOnBoard c seqs then
           Some (before @ rest, seqs(suit c := extendSeq (seqs (suit c)) (sortValue c)), decls)
         else playIndividual (before @ [c]) rest seqs decls)
      else
        (let validSuits = filter (\<lambda>s. s \<noteq> JOKER \<and> hasSeven (seqs s)) SUITS in
         case placeJoker c validSuits seqs of
           Some (seqs', decl) \<Rightarrow> Some (before @ rest, seqs', decls @ [decl])
         | None \<Rightarrow> playIndividual (before @ [c]) rest seqs decls))"

text \<open>One pass of the loop body: the new state when a play was made (\<open>played = true\<close>).\<close>

definition botStep :: "BotState \<Rightarrow> BotState option" where
  "botStep st =
     (case botMeld st of
        Some st' \<Rightarrow> Some st'
      | None \<Rightarrow>
         (case playIndividual [] (newHand st) (newSequences st) (newJokerDeclarations st) of
            None \<Rightarrow> None
          | Some (h, seqs, decls) \<Rightarrow>
             Some (st\<lparr>newHand := h, newSequences := seqs, newJokerDeclarations := decls,
                     movesMade := movesMade st + 1\<rparr>)))"

lemma botMeld_hand_shrinks:
  assumes "botMeld st = Some st'"
  shows "length (newHand st') < length (newHand st)"
proof -
  define naturals where "naturals = filter (\<lambda>c. \<not> isJoker c) (newHand st)"
  obtain r where r: "length (filter (\<lambda>c. rank c = r) naturals) \<ge> 3"
    and st': "newHand st' = filter (\<lambda>c. id_c c \<notin> set (map id_c (take 3 (filter (\<lambda>c. rank c = r) naturals))))
        (newHand st)"
    using assms unfolding botMeld_def Let_def naturals_def
    by (auto split: option.splits dest: find_Some_iff[THEN iffD1])
  from r obtain m ms where m: "filter (\<lambda>c. rank c = r) naturals = m # ms"
    by (cases "filter (\<lambda>c. rank c = r) naturals") auto
  then have "m \<in> set (filter (\<lambda>c. rank c = r) naturals)" by simp
  then have "m \<in> set (newHand st)" by (simp add: naturals_def)
  moreover have "id_c m \<in> set (map id_c (take 3 (filter (\<lambda>c. rank c = r) naturals)))"
    by (simp add: m)
  ultimately show ?thesis
    unfolding st' by (intro length_filter_less[of m]) auto
qed

lemma playIndividual_hand_shrinks:
  "playIndividual before h seqs decls = Some (h', seqs', decls')
     \<Longrightarrow> Suc (length h') = length before + length h"
  by (induction before h seqs decls rule: playIndividual.induct)
    (auto simp: Let_def split: if_splits option.splits)

lemma botStep_hand_shrinks:
  "botStep st = Some st' \<Longrightarrow> length (newHand st') < length (newHand st)"
  by (auto simp: botStep_def split: option.splits
      dest: botMeld_hand_shrinks playIndividual_hand_shrinks)

text \<open>
  \<open>while (played) { played = false; ... }\<close>: the body runs again after every pass that
  made a play and stops after the first pass that made none.
\<close>

function botLoop :: "BotState \<Rightarrow> BotState" where
  "botLoop st = (case botStep st of None \<Rightarrow> st | Some st' \<Rightarrow> botLoop st')"
  by pat_completeness auto
termination
  by (relation "measure (\<lambda>st. length (newHand st))") (auto dest: botStep_hand_shrinks)

declare botLoop.simps [simp del]

text \<open>
  The same loop with a budget of passes of the body: None when the budget runs out before
  a pass finds nothing to play.
\<close>

fun botLoopFuel :: "nat \<Rightarrow> BotState \<Rightarrow> BotState option" where
  "botLoopFuel 0 st = None"
| "botLoopFuel (Suc n) st =
     (case botStep st of None \<Rightarrow> Some st | Some st' \<Rightarrow> botLoopFuel n st')"

text \<open>
  The discard of the bot: the index of the first card of the highest value, starting from
  \<open>discardIndex = 0\<close> and \<open>maxVal = -1\<close>.
\<close>

definition discardIndexOf :: "Card list \<Rightarrow> nat" where
  "discardIndexOf h =
     fst (foldl (\<lambda>(discardIndex, maxVal) (c, i).
                   if value_c c > maxVal then (i, value_c c) else (discardIndex, maxVal))
            (0, -1) (zip h [0..<length h]))"

text \<open>The scripted bot of the tutorial: draw, then discard the two of clubs.\<close>

definition tutorialBot :: "AppState \<Rightarrow> GameState \<Rightarrow> js_error + AppState" where
  "tutorialBot app gs =
     (let botIdx = 1 in
      case at_index (players gs) botIdx of
        None \<Rightarrow> Inl TypeError
      | Some bot_p \<Rightarrow>
         (let (drawn, deck') = (case deck gs of [] \<Rightarrow> ([], []) | d # ds \<Rightarrow> ([d], ds));
              hand1 = hand bot_p @ drawn in
          case (case find (\<lambda>c. rank c = TWO \<and> suit c = CLUBS) hand1 of
                  Some c \<Rightarrow> Some c
                | None \<Rightarrow> at_index hand1 0) of
            None \<Rightarrow> Inl TypeError
          | Some discardCard \<Rightarrow>
             (let hand2 = filter (\<lambda>c. id_c c \<noteq> id_c discardCard) hand1 in
              Inr (app\<lparr>gameState := Some (gs\<lparr>deck := deck',
                      players := mapAt botIdx (\<lambda>p. p\<lparr>hand := hand2\<rparr>) (players gs),
                      discardPile := discardCard # discardPile gs,
                      turnPhase := ACTION,
                      currentPlayerIndex := 0,
                      pendingPong := Some \<lparr>card_pp = discardCard, discarderIndex = botIdx\<rparr>,
                      tutorialStep := tutorialStep gs + 1\<rparr>)\<rparr>))))"

text \<open>The normal bot: the play loop, then a knock, or a draw and a discard.\<close>

definition normalBot :: "AppState \<Rightarrow> GameState \<Rightarrow> js_error + AppState" where
  "normalBot app gs =
     (let botIdx = currentPlayerIndex gs in
      case at_index (players gs) botIdx of
        None \<Rightarrow> Inl TypeError
      | Some bot_p \<Rightarrow>
         (let st = botLoop \<lparr>newHand = hand bot_p, newMelds = melds bot_p,
                     newSequences = boardSequences gs,
                     newJokerDeclarations = jokerDeclarations gs, movesMade = 0\<rparr>;
              currentPoints = calculateHandPoints (newHand st) in
          if currentPoints \<le> 5 then
            (let tempPlayers =
                   mapAt botIdx (\<lambda>p. p\<lparr>hand := newHand st, melds := newMelds st\<rparr>) (players gs) in
             case applyFinalScores tempPlayers botIdx (newJokerDeclarations st) of
               Inl e \<Rightarrow> Inl e
             | Inr updatedPlayers' \<Rightarrow>
                (let previousScores' = map score (players gs);
                     roundPoints' =
                       map (\<lambda>(p, prev). score p - prev) (zip updatedPlayers' previousScores') in
                 Inr (app\<lparr>gameState := Some (gs\<lparr>players := updatedPlayers',
                           boardSequences := newSequences st,
                           jokerDeclarations := newJokerDeclarations st,
                           turnPhase := ROUND_OVER\<rparr>),
                         roundSummary := Some \<lparr>roundPoints = roundPoints',
                           previousScores = previousScores', updatedPlayers = updatedPlayers',
                           knockerIndex = botIdx\<rparr>\<rparr>)))
          else
            (let (hand1, deck') =
                   (case deck gs of
                      [] \<Rightarrow> (newHand st, [])
                    | d # ds \<Rightarrow> (sort_key sortValue (newHand st @ [d]), ds));
                 discardIndex = discardIndexOf hand1 in
             case at_index hand1 discardIndex of
               None \<Rightarrow> Inl TypeError
             | Some discardedCard \<Rightarrow>
                (let hand2 = take discardIndex hand1 @ drop (Suc discardIndex) hand1;
                     nextPlayer = (botIdx + 1) mod length (players gs) in
                 Inr (app\<lparr>gameState := Some (gs\<lparr>
                           players := mapAt botIdx
                             (\<lambda>p. p\<lparr>hand := hand2, melds := newMelds st\<rparr>) (players gs),
                           boardSequences := newSequences st,
                           jokerDeclarations := newJokerDeclarations st,
                           deck := deck',
                           discardPile := discardedCard # discardPile gs,
                           currentPlayerIndex := nextPlayer,
                           pendingPong :=
                             Some \<lparr>card_pp = discardedCard, discarderIndex = botIdx\<rparr>\<rparr>)\<rparr>)))))"

text \<open>
  The effect that runs the bot: nothing happens unless a game is under way, it is a bot's
  turn, no claim is pending and the phase is ACTION or DISCARD.
\<close>

definition botTurn :: "AppState \<Rightarrow> js_error + AppState" where
  "botTurn app =
     (case gameState app of
        None \<Rightarrow> Inr app
      | Some gs \<Rightarrow>
         if turnPhase gs = GAME_OVER \<or> turnPhase gs = ROUND_OVER \<or> \<not> gameStarted app then Inr app
         else if currentPlayerIndex gs = 0 then Inr app
         else if pendingPong gs \<noteq> None then Inr app
         else if turnPhase gs \<noteq> ACTION \<and> turnPhase gs \<noteq> DISCARD then Inr app
         else if isTutorial gs then tutorialBot app gs
         else normalBot app gs)"

section \<open>Example states\<close>

text \<open>Concrete players, boards and states on which the theorems below are exercised.\<close>

definition example_knocker :: Player where
  "example_knocker =
     \<lparr>id_p = 0, name = ''You'',
      hand = [mkCard ''a'' HEARTS ACE False, mkCard ''b'' SPADES THREE False],
      isHuman = True, score = 10, hasKnocked = False, melds = []\<rparr>"

definition example_opponent :: Player where
  "example_opponent =
     \<lparr>id_p = 1, name = ''Bot 1'', hand = [mkCard ''c'' CLUBS TWO False],
      isHuman = False, score = 20, hasKnocked = False, melds = []\<rparr>"

definition two_of_clubs_declared :: "JokerDeclaration list" where
  "two_of_clubs_declared = [\<lparr>cardId = ''j'', representedSuit = CLUBS, representedRank = TWO\<rparr>]"

definition example_human :: Player where
  "example_human =
     \<lparr>id_p = 0, name = ''You'',
      hand = [mkCard ''h8'' HEARTS EIGHT False, mkCard ''dk'' DIAMONDS KING False,
              mkCard ''j1'' JOKER RJOKER True],
      isHuman = True, score = 0, hasKnocked = False, melds = []\<rparr>"

definition example_bot :: Player where
  "example_bot =
     \<lparr>id_p = 1, name = ''Bot 1'',
      hand = [mkCard ''h6'' HEARTS SIX False, mkCard ''s7'' SPADES SEVEN False,
              mkCard ''j2'' JOKER RJOKER True, mkCard ''c9'' CLUBS NINE False],
      isHuman = False, score = 0, hasKnocked = False, melds = []\<rparr>"

definition hearts_started :: Sequences where
  "hearts_started =
     initialSequences(HEARTS := \<lparr>suit_s = HEARTS, low = 7, high = 7, hasSeven = True\<rparr>)"

definition example_game :: GameState where
  "example_game =
     \<lparr>players = [example_human, example_bot], currentPlayerIndex = 0,
      deck = [mkCard ''c4'' CLUBS FOUR False], discardPile = [],
      boardSequences = hearts_started, turnPhase = ACTION, round_g = 1, winner = None,
      pendingPong = None, jokerDeclarations = [], isTutorial = False, tutorialStep = 0\<rparr>"

definition example_app :: AppState where
  "example_app =
     \<lparr>gameState = Some example_game, selectedCards = [], pendingSingleJokerMove = None,
      pendingMeldAction = None, roundSummary = None, gameStarted = True\<rparr>"


definition example_play_eight :: AppState where
  "example_play_eight = example_app\<lparr>selectedCards := [''h8'']\<rparr>"

definition example_bot_state :: BotState where
  "example_bot_state =
     \<lparr>newHand = hand example_bot, newMelds = melds example_bot,
      newSequences = hearts_started, newJokerDeclarations = [], movesMade = 0\<rparr>"

definition example_after_eight :: GameState where
  "example_after_eight =
     example_game\<lparr>
       players := [example_human\<lparr>hand := [mkCard ''dk'' DIAMONDS KING False,
                     mkCard ''j1'' JOKER RJOKER True]\<rparr>, example_bot],
       boardSequences := hearts_started(HEARTS :=
          \<lparr>suit_s = HEARTS, low = 7, high = 8, hasSeven = True\<rparr>)\<rparr>"

definition example_bot_after_six :: BotState where
  "example_bot_after_six =
     example_bot_state\<lparr>
        newHand := [mkCard ''s7'' SPADES SEVEN False, mkCard ''j2'' JOKER RJOKER True,
                    mkCard ''c9'' CLUBS NINE False],
        newSequences := hearts_started(HEARTS :=
               \<lparr>suit_s = HEARTS, low = 6, high = 7, hasSeven = True\<rparr>),
        movesMade := 1\<rparr>"

definition example_pong_game :: GameState where
  "example_pong_game =
     example_game\<lparr>
        players := [example_human\<lparr>hand := [mkCard ''d7'' DIAMONDS SEVEN False,
                      mkCard ''dk'' DIAMONDS KING False, mkCard ''j1'' JOKER RJOKER True]\<rparr>,
                    example_bot],
        discardPile := [mkCard ''s7'' SPADES SEVEN False],
        pendingPong := Some \<lparr>card_pp = mkCard ''s7'' SPADES SEVEN False, discarderIndex = 1\<rparr>\<rparr>"

definition example_pong_seven :: AppState where
  "example_pong_seven = example_app\<lparr>gameState := Some example_pong_game\<rparr>"

definition example_bot_turn :: AppState where
  "example_bot_turn = example_app\<lparr>gameState := Some (example_game\<lparr>currentPlayerIndex := 1\<rparr>)\<rparr>"

definition example_low_app :: AppState where
  "example_low_app =
     example_app\<lparr>gameState := Some (example_game\<lparr>players := [example_knocker, example_opponent]\<rparr>)\<rparr>"

definition example_bot_low :: Player where
  "example_bot_low =
     example_bot\<lparr>hand := [mkCard ''h6'' HEARTS SIX False, mkCard ''c2'' CLUBS TWO False]\<rparr>"

definition example_bot_knocks :: AppState where
  "example_bot_knocks =
     example_app\<lparr>gameState := Some (example_game\<lparr>players := [example_human, example_bot_low],
        currentPlayerIndex := 1\<rparr>)\<rparr>"

definition example_tied :: "Player list" where
  "example_tied =
     [example_human\<lparr>score := 10\<rparr>, example_bot\<lparr>score := 10\<rparr>,
      \<lparr>id_p = 2, name = ''Bot 2'', hand = [], isHuman = False, score = 300,
       hasKnocked = False, melds = []\<rparr>]"

definition example_round_over :: AppState where
  "example_round_over =
     example_app\<lparr>gameState := Some (example_game\<lparr>players := example_tied,
                     turnPhase := ROUND_OVER\<rparr>),
       roundSummary := Some \<lparr>roundPoints = [10, 10, 300], previousScores = [0, 0, 0],
                           updatedPlayers = example_tied, knockerIndex = 0\<rparr>\<rparr>"

definition example_next_round :: AppState where
  "example_next_round =
     example_app\<lparr>gameState := Some (example_game\<lparr>
          players := [example_knocker\<lparr>score := 16\<rparr>, example_opponent],
          turnPhase := ROUND_OVER, jokerDeclarations := two_of_clubs_declared\<rparr>),
       roundSummary := Some \<lparr>roundPoints = [6, 0], previousScores = [10, 20],
          updatedPlayers = [example_knocker\<lparr>score := 16\<rparr>, example_opponent],
          knockerIndex = 0\<rparr>\<rparr>"

definition example_new_deck :: "Card list" where
  "example_new_deck = [mkCard ''n1'' CLUBS TWO False, mkCard ''n2'' HEARTS ACE False]"

definition example_single_six :: BotState where
  "example_single_six = example_bot_state\<lparr>newHand := [mkCard ''h6'' HEARTS SIX False]\<rparr>"

definition example_bot_before_joker :: BotState where
  "example_bot_before_joker =
     example_bot_state\<lparr>newHand := [mkCard ''j2'' JOKER RJOKER True,
                                     mkCard ''c9'' CLUBS NINE False]\<rparr>"

definition example_bot_after_joker :: BotState where
  "example_bot_after_joker =
     example_bot_state\<lparr>
        newHand := [mkCard ''c9'' CLUBS NINE False],
        newSequences := hearts_started(HEARTS :=
               \<lparr>suit_s = HEARTS, low = 7, high = 8, hasSeven = True\<rparr>),
        newJokerDeclarations :=
               [\<lparr>cardId = ''j2'', representedSuit = HEARTS, representedRank = EIGHT\<rparr>],
        movesMade := 1\<rparr>"

section \<open>Scoring\<close>

lemma foldl_add_sum_list: "foldl (\<lambda>a b. a + b) (a0 :: int) xs = a0 + sum_list xs"
  by (induction xs arbitrary: a0) auto

lemma calculateHandPoints_sum: "calculateHandPoints h = sum_list (map value_c h)"
proof -
  have "foldl (\<lambda>sum c. sum + value_c c) a0 h = a0 + sum_list (map value_c h)" for a0
    by (induction h arbitrary: a0) auto
  then show ?thesis by (simp add: calculateHandPoints_def)
qed

lemma isDeclared_iff:
  "isDeclared decls c \<longleftrightarrow>
     (\<exists>d \<in> set decls. representedSuit d = suit c \<and> representedRank d = rank c)"
  by (auto simp: isDeclared_def list_ex_iff)

lemma penalty_foldl:
  "foldl (\<lambda>pts c. if \<not> isJoker c then (if isDeclared decls c then pts + 30 else pts) else pts) a0 h
     = a0 + 30 * int (length (filter (\<lambda>c. \<not> isJoker c \<and> isDeclared decls c) h))"
  by (induction h arbitrary: a0) auto

lemma roundScore_eq:
  "roundScore decls p =
     calculateHandPoints (hand p)
       + 30 * int (length (filter (\<lambda>c. \<not> isJoker c \<and> isDeclared decls c) (hand p)))"
  by (simp add: roundScore_def penalty_foldl)

lemma undercut_foldl:
  "foldl (\<lambda>u i. if P i then True else u) u0 is \<longleftrightarrow> u0 \<or> (\<exists>i \<in> set is. P i)"
  by (induction "is" arbitrary: u0) auto

lemma undercut_iff:
  "undercut ps k decls \<longleftrightarrow>
     k < length ps \<and>
     (\<exists>i < length ps. i \<noteq> k \<and> roundScore decls (ps ! i) \<le> roundScore decls (ps ! k))"
  by (auto simp: undercut_def Let_def undercut_foldl at_index_def le_undefined_def
      roundScores_def)

lemma applyFinalScores_undercut:
  "undercut ps k decls \<Longrightarrow>
   applyFinalScores ps k decls =
     Inr (ps[k := (ps ! k)\<lparr>score := score (ps ! k) + sum_list (map (roundScore decls) ps)\<rparr>])"
  by (simp add: applyFinalScores_def Let_def undercut_iff at_index_def foldl_add_sum_list
      roundScores_def)

lemma map_zip_roundScores:
  "map (\<lambda>(p, r). p\<lparr>score := score p + r\<rparr>) (zip ps (map f ps))
     = map (\<lambda>p. p\<lparr>score := score p + f p\<rparr>) ps"
  by (induction ps) auto

lemma applyFinalScores_no_undercut:
  "\<not> undercut ps k decls \<Longrightarrow>
   applyFinalScores ps k decls
     = Inr (map (\<lambda>p. p\<lparr>score := score p + roundScore decls p\<rparr>) ps)"
  by (simp add: applyFinalScores_def Let_def roundScores_def map_zip_roundScores)

lemma applyFinalScores_total: "\<exists>ps'. applyFinalScores ps k decls = Inr ps'"
  by (cases "undercut ps k decls")
    (simp_all add: applyFinalScores_undercut applyFinalScores_no_undercut)

text \<open>
  Claim C1. Round-end scoring: a player's adjusted total is the hand points (the sum of
  the card values) plus 30 for each non-wild card in hand whose suit and rank match some
  recorded declaration; undercut holds iff some player other than the knocker has an
  adjusted total at most the knocker's (the knocker index being one of the players'); on
  an undercut the knocker's score grows by the sum of all adjusted totals and no other
  player changes, otherwise every player's score grows by that player's own adjusted
  total.
\<close>

theorem C1_applyFinalScores:
  "(\<forall>p. calculateHandPoints (hand p) = sum_list (map value_c (hand p)) \<and>
        roundScore decls p =
          calculateHandPoints (hand p)
            + 30 * int (length (filter (\<lambda>c. \<not> isJoker c \<and>
                  (\<exists>d \<in> set decls. representedSuit d = suit c \<and> representedRank d = rank c))
                (hand p)))) \<and>
   (undercut ps k decls \<longleftrightarrow>
      k < length ps \<and>
      (\<exists>i < length ps. i \<noteq> k \<and> roundScore decls (ps ! i) \<le> roundScore decls (ps ! k))) \<and>
   (undercut ps k decls \<longrightarrow>
      applyFinalScores ps k decls =
        Inr (ps[k := (ps ! k)\<lparr>score := score (ps ! k)
               + sum_list (map (roundScore decls) ps)\<rparr>])) \<and>
   (\<not> undercut ps k decls \<longrightarrow>
      applyFinalScores ps k decls =
        Inr (map (\<lambda>p. p\<lparr>score := score p + roundScore decls p\<rparr>) ps))"
proof -
  have "roundScore decls p =
          calculateHandPoints (hand p)
            + 30 * int (length (filter (\<lambda>c. \<not> isJoker c \<and>
                  (\<exists>d \<in> set decls. representedSuit d = suit c \<and> representedRank d = rank c))
                (hand p)))" for p
    by (simp add: roundScore_eq isDeclared_iff)
  with calculateHandPoints_sum undercut_iff[of ps k decls]
    applyFinalScores_undercut[of ps k decls] applyFinalScores_no_undercut[of ps k decls]
  show ?thesis by blast
qed

text \<open>
  An undercut: the knocker holds an ace and a three (4 points), the opponent a two, and
  the knocker takes 4 + 2. The same hands once a wild card has been declared as the two
  of clubs: the opponent's total is 32, there is no undercut, each takes their own.
\<close>

theorem C1_applyFinalScores_witness:
  "undercut [example_knocker, example_opponent] 0 [] \<and>
   applyFinalScores [example_knocker, example_opponent] 0 []
     = Inr [example_knocker\<lparr>score := 16\<rparr>, example_opponent] \<and>
   \<not> undercut [example_knocker, example_opponent] 0 two_of_clubs_declared \<and>
   applyFinalScores [example_knocker, example_opponent] 0 two_of_clubs_declared
     = Inr [example_knocker\<lparr>score := 14\<rparr>, example_opponent\<lparr>score := 52\<rparr>]"
proof -
  have s0: "roundScore [] example_knocker = 4" "roundScore [] example_opponent = 2"
    by code_simp+
  have s1: "roundScore two_of_clubs_declared example_knocker = 4"
    "roundScore two_of_clubs_declared example_opponent = 32"
    by code_simp+
  have sc: "score example_knocker = 10" "score example_opponent = 20"
    by (simp_all add: example_knocker_def example_opponent_def)
  have u0: "undercut [example_knocker, example_opponent] 0 []" by code_simp
  have u1: "\<not> undercut [example_knocker, example_opponent] 0 two_of_clubs_declared"
    by code_simp
  note a0 = C1_applyFinalScores [of "[]" "[example_knocker, example_opponent]" 0,
      THEN conjunct2, THEN conjunct2, THEN conjunct1, THEN mp, OF u0]
  note a1 = C1_applyFinalScores [of two_of_clubs_declared
      "[example_knocker, example_opponent]" 0,
      THEN conjunct2, THEN conjunct2, THEN conjunct2, THEN mp, OF u1]
  show ?thesis
    using u0 u1 a0 a1 by (simp add: s0 s1 sc)
qed

text \<open>
  Claim C2, as the code has it. canPlayOnBoard accepts every wild card, whatever the
  board: its first statement returns true for a joker before any sequence is read.
\<close>

theorem C2_canPlayOnBoard_wild: "isJoker c \<Longrightarrow> canPlayOnBoard c sequences"
  by (simp add: canPlayOnBoard_def)

theorem C2_canPlayOnBoard_wild_witness:
  "isJoker (mkCard ''j'' JOKER RJOKER True) \<and>
   canPlayOnBoard (mkCard ''j'' JOKER RJOKER True) initialSequences"
  using C2_canPlayOnBoard_wild [of "mkCard ''j'' JOKER RJOKER True" initialSequences]
  by (simp add: mkCard_def)

text \<open>
  The claim as the specification states it fails on the starting board: no suit has its
  seven, and the predicate still accepts the joker.
\<close>

theorem C2_counterexample:
  "canPlayOnBoard (mkCard ''j'' JOKER RJOKER True) initialSequences \<and>
   \<not> hasSeven (initialSequences HEARTS) \<and> \<not> hasSeven (initialSequences DIAMONDS) \<and>
   \<not> hasSeven (initialSequences CLUBS) \<and> \<not> hasSeven (initialSequences SPADES) \<and>
   \<not> hasSeven (initialSequences JOKER)"
  by (simp add: canPlayOnBoard_def mkCard_def initialSequences_def)

text \<open>
  Claim C4. For a card that is not wild: a seven is playable iff its suit has no seven
  yet; any other card is playable iff its suit has its seven and the card's sort value is
  exactly one above the high end or one below the low end of the suit's sequence.
\<close>

theorem C4_canPlayOnBoard_natural:
  "\<not> isJoker c \<Longrightarrow>
   canPlayOnBoard c sequences =
     (if rank c = SEVEN then \<not> hasSeven (sequences (suit c))
      else hasSeven (sequences (suit c)) \<and>
           (sortValue c = high (sequences (suit c)) + 1 \<or>
            sortValue c = low (sequences (suit c)) - 1))"
  by (simp add: canPlayOnBoard_def Let_def)

theorem C4_canPlayOnBoard_natural_witness:
  "\<not> isJoker (mkCard ''h8'' HEARTS EIGHT False) \<and>
   canPlayOnBoard (mkCard ''h8'' HEARTS EIGHT False)
     (initialSequences(HEARTS := (initialSequences HEARTS)\<lparr>hasSeven := True\<rparr>)) \<and>
   \<not> canPlayOnBoard (mkCard ''h9'' HEARTS NINE False)
     (initialSequences(HEARTS := (initialSequences HEARTS)\<lparr>hasSeven := True\<rparr>)) \<and>
   \<not> canPlayOnBoard (mkCard ''h7'' HEARTS SEVEN False)
     (initialSequences(HEARTS := (initialSequences HEARTS)\<lparr>hasSeven := True\<rparr>)) \<and>
   canPlayOnBoard (mkCard ''d7'' DIAMONDS SEVEN False)
     (initialSequences(HEARTS := (initialSequences HEARTS)\<lparr>hasSeven := True\<rparr>))"
  using
    C4_canPlayOnBoard_natural [of "mkCard ''h8'' HEARTS EIGHT False"
      "initialSequences(HEARTS := (initialSequences HEARTS)\<lparr>hasSeven := True\<rparr>)"]
    C4_canPlayOnBoard_natural [of "mkCard ''h9'' HEARTS NINE False"
      "initialSequences(HEARTS := (initialSequences HEARTS)\<lparr>hasSeven := True\<rparr>)"]
    C4_canPlayOnBoard_natural [of "mkCard ''h7'' HEARTS SEVEN False"
      "initialSequences(HEARTS := (initialSequences HEARTS)\<lparr>hasSeven := True\<rparr>)"]
    C4_canPlayOnBoard_natural [of "mkCard ''d7'' DIAMONDS SEVEN False"
      "initialSequences(HEARTS := (initialSequences HEARTS)\<lparr>hasSeven := True\<rparr>)"]
  by (simp add: mkCard_def initialSequences_def getSortValue_def RANKS_def)

section \<open>Ranks by index\<close>

lemma ranksAt_Some:
  assumes "ranksAt i = Some r"
  shows "getSortValue r = i + 1"
proof -
  from assms have b: "0 \<le> i" "i < 13" and r: "r = RANKS ! nat i"
    by (auto simp: ranksAt_def RANKS_def split: if_splits)
  from b have "i = 0 \<or> i = 1 \<or> i = 2 \<or> i = 3 \<or> i = 4 \<or> i = 5 \<or> i = 6 \<or> i = 7 \<or> i = 8
      \<or> i = 9 \<or> i = 10 \<or> i = 11 \<or> i = 12"
    by arith
  then show ?thesis
    unfolding r by (elim disjE) (simp_all add: RANKS_def getSortValue_def)
qed

section \<open>Extensions of a sequence\<close>

lemma extendSeq_grows:
  assumes "hasSeven seq" "low seq \<le> 7" "7 \<le> high seq"
    and "v = high seq + 1 \<or> v = low seq - 1"
  shows "grownByOne seq (extendSeq seq v)"
  using assms by (auto simp: grownByOne_def extendSeq_def Let_def)

lemma standardCardPlay_step:
  assumes "standardCardPlay c seqs = Some seqs'"
    and "hasSeven (seqs s)" "low (seqs s) \<le> 7" "7 \<le> high (seqs s)"
    and "\<not> isJoker c"
  shows "seqs' s = seqs s \<or> grownByOne (seqs s) (seqs' s)"
proof (cases "suit c = s")
  case False
  with assms(1) show ?thesis
    by (auto simp: standardCardPlay_def split: if_splits)
next
  case True
  with assms have "canPlayOnBoard c seqs" "rank c \<noteq> SEVEN"
    and s': "seqs' = seqs(s := extendSeq (seqs s) (sortValue c))"
    by (auto simp: standardCardPlay_def canPlayOnBoard_def split: if_splits)
  then have "sortValue c = high (seqs s) + 1 \<or> sortValue c = low (seqs s) - 1"
    using True assms(2,5) by (auto simp: canPlayOnBoard_def Let_def split: if_splits)
  from extendSeq_grows[OF assms(2-4) this] show ?thesis by (simp add: s')
qed

lemma playSelectedCards_board:
  assumes "gameState app = Some gs" "playSelectedCards app = Inr app'" "gameState app' = Some gs'"
  shows "boardSequences gs' = boardSequences gs \<or>
         (\<exists>c. \<not> isJoker c \<and> standardCardPlay c (boardSequences gs) = Some (boardSequences gs'))"
  using assms
  by (force simp: playSelectedCards_def meldSelected_def Let_def
      split: option.splits sum.splits bool.splits list.splits if_splits)

lemma ranksAt_defined: "0 \<le> i \<Longrightarrow> i < 13 \<Longrightarrow> \<exists>r. ranksAt i = Some r"
  by (simp add: ranksAt_def RANKS_def)

lemma getSortValue_SEVEN: "getSortValue SEVEN = 7"
  by (simp add: getSortValue_def RANKS_def)

lemma jokerTarget_grows:
  assumes "hasSeven seq" "low seq \<le> 7" "7 \<le> high seq" and "jokerTarget seq = Some r"
    and "r \<noteq> SEVEN"
  shows "grownByOne seq (if getSortValue r > high seq then seq\<lparr>high := getSortValue r\<rparr>
                         else seq\<lparr>low := getSortValue r\<rparr>)"
  using assms
  by (auto simp: jokerTarget_def grownByOne_def split: if_splits dest!: ranksAt_Some)

lemma placeJoker_step:
  assumes "placeJoker c vs seqs = Some (seqs', d)"
    and "hasSeven (seqs s)" "low (seqs s) \<le> 7" "7 \<le> high (seqs s)"
  shows "seqs' s = seqs s \<or> grownByOne (seqs s) (seqs' s)"
  using assms
proof (induction vs)
  case Nil
  then show ?case by simp
next
  case (Cons t vs)
  show ?case
  proof (cases "jokerTarget (seqs t)")
    case None
    with Cons show ?thesis by simp
  next
    case (Some r)
    show ?thesis
    proof (cases "r = SEVEN")
      case True
      with Some Cons show ?thesis by simp
    next
      case False
      with Some Cons.prems(1)
      have s': "seqs' = seqs(t := (if getSortValue r > high (seqs t)
                           then (seqs t)\<lparr>high := getSortValue r\<rparr>
                           else (seqs t)\<lparr>low := getSortValue r\<rparr>))"
        by (simp add: Let_def)
      show ?thesis
      proof (cases "t = s")
        case True
        from jokerTarget_grows[OF Cons.prems(2-4) Some[unfolded True] False]
        show ?thesis unfolding s' True by (simp split del: if_split)
      next
        case False
        then show ?thesis by (simp add: s')
      qed
    qed
  qed
qed

lemma playIndividual_step:
  assumes "playIndividual before h seqs decls = Some (h', seqs', decls')"
    and "hasSeven (seqs s)" "low (seqs s) \<le> 7" "7 \<le> high (seqs s)"
  shows "seqs' s = seqs s \<or> grownByOne (seqs s) (seqs' s)"
  using assms
proof (induction before h seqs decls rule: playIndividual.induct)
  case (1 before seqs decls)
  then show ?case by simp
next
  case (2 before c rest seqs decls)
  show ?case
  proof (cases "isJoker c")
    case False
    show ?thesis
    proof (cases "standardCardPlay c seqs")
      case None
      with False 2 show ?thesis
        by (auto simp: standardCardPlay_def split: if_splits)
    next
      case (Some sq)
      with False "2.prems"(1) have "seqs' = sq"
        by (auto simp: standardCardPlay_def split: if_splits)
      with standardCardPlay_step[OF Some "2.prems"(2-4) False] show ?thesis by simp
    qed
  next
    case True
    show ?thesis
    proof (cases "placeJoker c (filter (\<lambda>s. s \<noteq> JOKER \<and> hasSeven (seqs s)) SUITS) seqs")
      case None
      with True 2 show ?thesis by (auto simp: Let_def)
    next
      case (Some a)
      obtain sq d where a: "a = (sq, d)" by (cases a)
      with Some True "2.prems"(1) have "seqs' = sq" by (simp add: Let_def)
      with placeJoker_step[OF Some[unfolded a] "2.prems"(2-4)] show ?thesis by simp
    qed
  qed
qed

lemma botStep_step:
  assumes "botStep st = Some st'"
    and "hasSeven (newSequences st s)" "low (newSequences st s) \<le> 7" "7 \<le> high (newSequences st s)"
  shows "newSequences st' s = newSequences st s \<or> grownByOne (newSequences st s) (newSequences st' s)"
proof (cases "botMeld st")
  case (Some m)
  with assms(1) have "st' = m" by (simp add: botStep_def)
  with Some show ?thesis by (auto simp: botMeld_def Let_def split: option.splits)
next
  case None
  with assms(1) obtain h sq ds where
    p: "playIndividual [] (newHand st) (newSequences st) (newJokerDeclarations st) = Some (h, sq, ds)"
    and "newSequences st' = sq"
    by (auto simp: botStep_def split: option.splits)
  with playIndividual_step[OF p assms(2-4)] show ?thesis by simp
qed

lemma seeded_initialSequences: "seeded initialSequences"
  by (simp add: seeded_def initialSequences_def SUITS_def)

lemma seeded_suit:
  "seeded seqs \<Longrightarrow> s \<in> set SUITS \<Longrightarrow> hasSeven (seqs s) \<Longrightarrow>
     low (seqs s) \<le> 7 \<and> 7 \<le> high (seqs s)"
  by (auto simp: seeded_def split: if_splits)

lemma seeded_no_seven:
  "seeded seqs \<Longrightarrow> s \<in> set SUITS \<Longrightarrow> \<not> hasSeven (seqs s) \<Longrightarrow>
     low (seqs s) = 7 \<and> high (seqs s) = 7"
  by (auto simp: seeded_def split: if_splits)

lemma seeded_update:
  assumes "seeded seqs"
    and "t \<in> set SUITS \<Longrightarrow>
           (if hasSeven sq then low sq \<le> 7 \<and> 7 \<le> high sq else low sq = 7 \<and> high sq = 7)"
  shows "seeded (seqs(t := sq))"
  using assms by (auto simp: seeded_def)

lemma seeded_grown:
  "seeded seqs \<Longrightarrow> grownByOne (seqs t) sq \<Longrightarrow> seeded (seqs(t := sq))"
  by (rule seeded_update) (auto simp: grownByOne_def)

lemma seeded_seven:
  "seeded seqs \<Longrightarrow> \<not> hasSeven (seqs t) \<Longrightarrow> seeded (seqs(t := (seqs t)\<lparr>hasSeven := True\<rparr>))"
  by (rule seeded_update) (auto dest: seeded_no_seven)

lemma standardCardPlay_accepts:
  "\<not> isJoker c \<Longrightarrow> canPlayOnBoard c seqs \<Longrightarrow> \<exists>seqs'. standardCardPlay c seqs = Some seqs'"
  by (simp add: standardCardPlay_def)

lemma standardCardPlay_seven:
  assumes "\<not> isJoker c" "rank c = SEVEN" "standardCardPlay c seqs = Some seqs'"
  shows "\<not> hasSeven (seqs (suit c)) \<and> seqs' = seqs(suit c := (seqs (suit c))\<lparr>hasSeven := True\<rparr>)"
  using assms by (auto simp: standardCardPlay_def canPlayOnBoard_def split: if_splits)

lemma standardCardPlay_extension:
  assumes "\<not> isJoker c" "rank c \<noteq> SEVEN" "standardCardPlay c seqs = Some seqs'"
    and "hasSeven (seqs (suit c)) \<longrightarrow> low (seqs (suit c)) \<le> 7 \<and> 7 \<le> high (seqs (suit c))"
  shows "hasSeven (seqs (suit c)) \<and>
         seqs' = seqs(suit c := extendSeq (seqs (suit c)) (sortValue c)) \<and>
         grownByOne (seqs (suit c)) (extendSeq (seqs (suit c)) (sortValue c))"
proof -
  from assms(1-3) have can: "canPlayOnBoard c seqs"
    and s': "seqs' = seqs(suit c := extendSeq (seqs (suit c)) (sortValue c))"
    by (auto simp: standardCardPlay_def split: if_splits)
  from can assms(1,2) have hs: "hasSeven (seqs (suit c))"
    and adj: "sortValue c = high (seqs (suit c)) + 1 \<or> sortValue c = low (seqs (suit c)) - 1"
    by (auto simp: canPlayOnBoard_def Let_def split: if_splits)
  from assms(4) hs have "low (seqs (suit c)) \<le> 7" "7 \<le> high (seqs (suit c))" by auto
  from extendSeq_grows[OF hs this adj] hs s' show ?thesis by simp
qed

lemma standardCardPlay_seeded:
  assumes "\<not> isJoker c" "standardCardPlay c seqs = Some seqs'" "seeded seqs"
  shows "seeded seqs'"
proof (cases "rank c = SEVEN")
  case True
  from standardCardPlay_seven[OF assms(1) True assms(2)] seeded_seven[OF assms(3)]
  show ?thesis by auto
next
  case False
  show ?thesis
  proof (cases "suit c \<in> set SUITS")
    case True
    then have "hasSeven (seqs (suit c)) \<longrightarrow> low (seqs (suit c)) \<le> 7 \<and> 7 \<le> high (seqs (suit c))"
      using seeded_suit[OF assms(3)] by blast
    from standardCardPlay_extension[OF assms(1) False assms(2) this] seeded_grown[OF assms(3)]
    show ?thesis by auto
  next
    case out: False
    from assms(1,2) \<open>rank c \<noteq> SEVEN\<close>
    have "seqs' = seqs(suit c := extendSeq (seqs (suit c)) (sortValue c))"
      by (auto simp: standardCardPlay_def split: if_splits)
    with assms(3) out show ?thesis by (auto simp: seeded_def)
  qed
qed

lemma jokerTarget_rank:
  assumes "hasSeven seq" "low seq \<le> 7" "7 \<le> high seq" and "jokerTarget seq = Some r"
  shows "r \<noteq> SEVEN"
  using assms getSortValue_SEVEN
  by (auto simp: jokerTarget_def split: if_splits dest!: ranksAt_Some)

lemma placeJoker_outcome:
  assumes "placeJoker c vs seqs = Some (seqs', d)"
    and "\<forall>t \<in> set vs. hasSeven (seqs t) \<and> low (seqs t) \<le> 7 \<and> 7 \<le> high (seqs t)"
  shows "\<exists>t \<in> set vs. \<exists>sq. seqs' = seqs(t := sq) \<and> grownByOne (seqs t) sq"
  using assms
proof (induction vs)
  case Nil
  then show ?case by simp
next
  case (Cons t vs)
  from Cons.prems(2) have inv: "hasSeven (seqs t)" "low (seqs t) \<le> 7" "7 \<le> high (seqs t)"
    by auto
  show ?case
  proof (cases "jokerTarget (seqs t)")
    case None
    with Cons show ?thesis by auto
  next
    case (Some r)
    from jokerTarget_rank[OF inv Some] have ns: "r \<noteq> SEVEN" .
    with Some Cons.prems(1)
    have s': "seqs' = seqs(t := (if getSortValue r > high (seqs t)
                           then (seqs t)\<lparr>high := getSortValue r\<rparr>
                           else (seqs t)\<lparr>low := getSortValue r\<rparr>))"
      by (simp add: Let_def)
    from jokerTarget_grows[OF inv Some ns] s' show ?thesis by auto
  qed
qed

lemma validSuits_seeded:
  "seeded seqs \<Longrightarrow>
   \<forall>t \<in> set (filter (\<lambda>s. s \<noteq> JOKER \<and> hasSeven (seqs s)) SUITS).
      hasSeven (seqs t) \<and> low (seqs t) \<le> 7 \<and> 7 \<le> high (seqs t)"
  by (auto dest: seeded_suit)

lemma playIndividual_outcome:
  assumes "playIndividual before h seqs decls = Some (h', seqs', decls')"
    and "seeded seqs" and "\<forall>x \<in> set h. isJoker x \<or> suit x \<in> set SUITS"
  shows "\<exists>t \<in> set SUITS.
           (\<not> hasSeven (seqs t) \<and> seqs' = seqs(t := (seqs t)\<lparr>hasSeven := True\<rparr>)) \<or>
           (hasSeven (seqs t) \<and> (\<exists>sq. seqs' = seqs(t := sq) \<and> grownByOne (seqs t) sq))"
  using assms
proof (induction before h seqs decls rule: playIndividual.induct)
  case (1 before seqs decls)
  then show ?case by simp
next
  case (2 before c rest seqs decls)
  from "2.prems"(3) have restOK: "\<forall>x \<in> set rest. isJoker x \<or> suit x \<in> set SUITS" by simp
  show ?case
  proof (cases "isJoker c")
    case False
    with "2.prems"(3) have sc: "suit c \<in> set SUITS" by simp
    show ?thesis
    proof (cases "standardCardPlay c seqs")
      case None
      with False have "playIndividual before (c # rest) seqs decls
          = playIndividual (before @ [c]) rest seqs decls"
        by (auto simp: standardCardPlay_def split: if_splits)
      with "2.prems"(1) have p: "playIndividual (before @ [c]) rest seqs decls = Some (h', seqs', decls')"
        by simp
      from None False have n1: "\<not> (rank c = SEVEN \<and> \<not> hasSeven (seqs (suit c)))"
        and n2: "\<not> canPlayOnBoard c seqs"
        by (auto simp: standardCardPlay_def split: if_splits)
      from "2.IH"(1)[OF False n1 n2 p "2.prems"(2) restOK] show ?thesis .
    next
      case (Some sq)
      with False "2.prems"(1) have e: "seqs' = sq"
        by (auto simp: standardCardPlay_def split: if_splits)
      show ?thesis
      proof (cases "rank c = SEVEN")
        case True
        from standardCardPlay_seven[OF False True Some] e sc show ?thesis by auto
      next
        case nseven: False
        have "hasSeven (seqs (suit c)) \<longrightarrow> low (seqs (suit c)) \<le> 7 \<and> 7 \<le> high (seqs (suit c))"
          using seeded_suit[OF "2.prems"(2) sc] by blast
        from standardCardPlay_extension[OF False nseven Some this] e sc show ?thesis by auto
      qed
    qed
  next
    case True
    let ?vs = "filter (\<lambda>s. s \<noteq> JOKER \<and> hasSeven (seqs s)) SUITS"
    show ?thesis
    proof (cases "placeJoker c ?vs seqs")
      case None
      with True "2.prems"(1) have p: "playIndividual (before @ [c]) rest seqs decls = Some (h', seqs', decls')"
        by (simp add: Let_def)
      from "2.IH"(2)[OF _ refl None p "2.prems"(2) restOK] True show ?thesis by simp
    next
      case (Some a)
      obtain sq d where a: "a = (sq, d)" by (cases a)
      with Some True "2.prems"(1) have e: "seqs' = sq" by (simp add: Let_def)
      from placeJoker_outcome[OF Some[unfolded a] validSuits_seeded[OF "2.prems"(2)]] e
      show ?thesis by auto
    qed
  qed
qed

lemma playIndividual_seeded:
  assumes "playIndividual before h seqs decls = Some (h', seqs', decls')" and "seeded seqs"
  shows "seeded seqs'"
  using assms
proof (induction before h seqs decls rule: playIndividual.induct)
  case (1 before seqs decls)
  then show ?case by simp
next
  case (2 before c rest seqs decls)
  show ?case
  proof (cases "isJoker c")
    case False
    show ?thesis
    proof (cases "standardCardPlay c seqs")
      case None
      with False 2 show ?thesis
        by (auto simp: standardCardPlay_def split: if_splits)
    next
      case (Some sq)
      with False "2.prems"(1) have "seqs' = sq"
        by (auto simp: standardCardPlay_def split: if_splits)
      with standardCardPlay_seeded[OF False Some "2.prems"(2)] show ?thesis by simp
    qed
  next
    case True
    let ?vs = "filter (\<lambda>s. s \<noteq> JOKER \<and> hasSeven (seqs s)) SUITS"
    show ?thesis
    proof (cases "placeJoker c ?vs seqs")
      case None
      with True 2 show ?thesis by (auto simp: Let_def)
    next
      case (Some a)
      obtain sq d where a: "a = (sq, d)" by (cases a)
      with Some True "2.prems"(1) have e: "seqs' = sq" by (simp add: Let_def)
      from placeJoker_outcome[OF Some[unfolded a] validSuits_seeded[OF "2.prems"(2)]] e
        seeded_grown[OF "2.prems"(2)]
      show ?thesis by auto
    qed
  qed
qed

lemma botMeld_board: "botMeld st = Some st' \<Longrightarrow> newSequences st' = newSequences st"
  by (auto simp: botMeld_def Let_def split: option.splits)

lemma botStep_seeded:
  assumes "botStep st = Some st'" and "seeded (newSequences st)"
  shows "seeded (newSequences st')"
proof (cases "botMeld st")
  case (Some m)
  with assms(1) have "st' = m" by (simp add: botStep_def)
  with botMeld_board[OF Some] assms(2) show ?thesis by simp
next
  case None
  with assms(1) obtain h sq ds where
    p: "playIndividual [] (newHand st) (newSequences st) (newJokerDeclarations st) = Some (h, sq, ds)"
    and "newSequences st' = sq"
    by (auto simp: botStep_def split: option.splits)
  with playIndividual_seeded[OF p assms(2)] show ?thesis by simp
qed

lemma botLoop_seeded: "seeded (newSequences st) \<Longrightarrow> seeded (newSequences (botLoop st))"
proof (induction st rule: botLoop.induct)
  case (1 st)
  show ?case
  proof (cases "botStep st")
    case None
    with "1.prems" show ?thesis by (simp add: botLoop.simps[of st])
  next
    case (Some st')
    from "1.IH"[OF Some botStep_seeded[OF Some "1.prems"]] Some
    show ?thesis by (simp add: botLoop.simps[of st])
  qed
qed

lemma botStep_outcome:
  assumes "botMeld st = None" and "botStep st = Some st'" and "seeded (newSequences st)"
    and "\<forall>x \<in> set (newHand st). isJoker x \<or> suit x \<in> set SUITS"
  shows "\<exists>t \<in> set SUITS.
           (\<not> hasSeven (newSequences st t) \<and>
              newSequences st' = (newSequences st)(t := (newSequences st t)\<lparr>hasSeven := True\<rparr>)) \<or>
           (hasSeven (newSequences st t) \<and>
              (\<exists>sq. newSequences st' = (newSequences st)(t := sq) \<and>
                 grownByOne (newSequences st t) sq))"
proof -
  from assms(1,2) obtain h sq ds where
    p: "playIndividual [] (newHand st) (newSequences st) (newJokerDeclarations st) = Some (h, sq, ds)"
    and "newSequences st' = sq"
    by (auto simp: botStep_def split: option.splits)
  with playIndividual_outcome[OF p assms(3,4)] show ?thesis by simp
qed

lemma playSelectedCards_single:
  assumes "gameState app = Some gs"
    and "tutorialInterception gs (selectedCards app) = Inr True"
    and "players gs = player # others"
    and "filter (\<lambda>x. id_c x \<in> set (selectedCards app)) (hand player) = [c]"
    and "\<not> isJoker c" and "standardCardPlay c (boardSequences gs) = Some seqs'"
  shows "playSelectedCards app =
     Inr (app\<lparr>gameState := Some (gs\<lparr>
            players := player\<lparr>hand := filter (\<lambda>x. id_c x \<noteq> id_c c) (hand player)\<rparr> # others,
            boardSequences := seqs', tutorialStep := nextStep gs\<rparr>),
          selectedCards := []\<rparr>)"
proof -
  from assms(4) have "selectedCards app \<noteq> []"
    by (cases "selectedCards app") auto
  with assms show ?thesis
    by (simp add: playSelectedCards_def Let_def)
qed

lemma playSelectedCards_seeded:
  assumes "gameState app = Some gs" "playSelectedCards app = Inr app'" "gameState app' = Some gs'"
    and "seeded (boardSequences gs)"
  shows "seeded (boardSequences gs')"
  using playSelectedCards_board[OF assms(1-3)] assms(4) standardCardPlay_seeded
  by auto

text \<open>
  Claim C5. On a board that is \<open>seeded\<close> (as the starting board is, and as every play
  below leaves it):
  \<^item> when playSelectedCards accepts a single card that is not a joker and not a seven, the
    card's suit has its seven and its sequence is extended by the card's sort value: the
    seven stays between the ends, exactly one of the two ends moves, outward by one, and
    \<open>high - low\<close> grows by exactly 1 (\<open>grownByOne\<close>); no other suit changes;
  \<^item> every pass of the bot's loop that plays a single card (no meld) changes exactly one
    suit: it either places that suit's seven, or extends that suit's sequence in the same
    way, whether the card is a natural card or a joker;
  \<^item> for a suit with its seven, \<open>low \<le> 7 \<le> high\<close> holds, and whatever playSelectedCards
    or a pass of the bot's loop does, that suit's sequence is left as it was or extended
    in that way, and the board is seeded again; so it is after the bot's whole loop.
\<close>

theorem C5_extension_invariant:
  assumes "seeded seqs"
  shows
   "(gameState app = Some gs \<and> boardSequences gs = seqs \<and>
     tutorialInterception gs (selectedCards app) = Inr True \<and>
     players gs = player # others \<and>
     filter (\<lambda>x. id_c x \<in> set (selectedCards app)) (hand player) = [c] \<and>
     \<not> isJoker c \<and> rank c \<noteq> SEVEN \<and> suit c \<in> set SUITS \<and> canPlayOnBoard c seqs \<longrightarrow>
       hasSeven (seqs (suit c)) \<and>
       playSelectedCards app =
         Inr (app\<lparr>gameState := Some (gs\<lparr>
                players := player\<lparr>hand := filter (\<lambda>x. id_c x \<noteq> id_c c) (hand player)\<rparr> # others,
                boardSequences := seqs(suit c := extendSeq (seqs (suit c)) (sortValue c)),
                tutorialStep := nextStep gs\<rparr>),
              selectedCards := []\<rparr>) \<and>
       grownByOne (seqs (suit c)) (extendSeq (seqs (suit c)) (sortValue c)) \<and>
       seeded (seqs(suit c := extendSeq (seqs (suit c)) (sortValue c)))) \<and>
    (newSequences st = seqs \<and> botMeld st = None \<and> botStep st = Some st' \<and>
     (\<forall>x \<in> set (newHand st). isJoker x \<or> suit x \<in> set SUITS) \<longrightarrow>
       seeded (newSequences st') \<and>
       (\<exists>t \<in> set SUITS.
          (\<not> hasSeven (seqs t) \<and> newSequences st' = seqs(t := (seqs t)\<lparr>hasSeven := True\<rparr>)) \<or>
          (hasSeven (seqs t) \<and>
             (\<exists>sq. newSequences st' = seqs(t := sq) \<and> grownByOne (seqs t) sq)))) \<and>
    (s \<in> set SUITS \<and> hasSeven (seqs s) \<longrightarrow>
       low (seqs s) \<le> 7 \<and> 7 \<le> high (seqs s) \<and>
       (gameState app = Some gs \<and> boardSequences gs = seqs \<and>
        playSelectedCards app = Inr app' \<and> gameState app' = Some gs' \<longrightarrow>
          seeded (boardSequences gs') \<and>
          (boardSequences gs' s = seqs s \<or> grownByOne (seqs s) (boardSequences gs' s))) \<and>
       (newSequences st = seqs \<and> botStep st = Some st' \<longrightarrow>
          seeded (newSequences st') \<and>
          (newSequences st' s = seqs s \<or> grownByOne (seqs s) (newSequences st' s)))) \<and>
    (newSequences st = seqs \<longrightarrow> seeded (newSequences (botLoop st))) \<and>
    seeded initialSequences"
proof (intro conjI)
  show "gameState app = Some gs \<and> boardSequences gs = seqs \<and>
     tutorialInterception gs (selectedCards app) = Inr True \<and>
     players gs = player # others \<and>
     filter (\<lambda>x. id_c x \<in> set (selectedCards app)) (hand player) = [c] \<and>
     \<not> isJoker c \<and> rank c \<noteq> SEVEN \<and> suit c \<in> set SUITS \<and> canPlayOnBoard c seqs \<longrightarrow>
       hasSeven (seqs (suit c)) \<and>
       playSelectedCards app =
         Inr (app\<lparr>gameState := Some (gs\<lparr>
                players := player\<lparr>hand := filter (\<lambda>x. id_c x \<noteq> id_c c) (hand player)\<rparr> # others,
                boardSequences := seqs(suit c := extendSeq (seqs (suit c)) (sortValue c)),
                tutorialStep := nextStep gs\<rparr>),
              selectedCards := []\<rparr>) \<and>
       grownByOne (seqs (suit c)) (extendSeq (seqs (suit c)) (sortValue c)) \<and>
       seeded (seqs(suit c := extendSeq (seqs (suit c)) (sortValue c)))"
  proof
    assume a: "gameState app = Some gs \<and> boardSequences gs = seqs \<and>
     tutorialInterception gs (selectedCards app) = Inr True \<and>
     players gs = player # others \<and>
     filter (\<lambda>x. id_c x \<in> set (selectedCards app)) (hand player) = [c] \<and>
     \<not> isJoker c \<and> rank c \<noteq> SEVEN \<and> suit c \<in> set SUITS \<and> canPlayOnBoard c seqs"
    then obtain seqs' where sp: "standardCardPlay c seqs = Some seqs'"
      using standardCardPlay_accepts by blast
    have inv: "hasSeven (seqs (suit c)) \<longrightarrow> low (seqs (suit c)) \<le> 7 \<and> 7 \<le> high (seqs (suit c))"
      using seeded_suit[OF assms] a by blast
    from a have nj: "\<not> isJoker c" and ns: "rank c \<noteq> SEVEN" by auto
    note e = standardCardPlay_extension[OF nj ns sp inv]
    from a sp have sp': "standardCardPlay c (boardSequences gs) = Some seqs'" by simp
    from a have g: "gameState app = Some gs"
      and ti: "tutorialInterception gs (selectedCards app) = Inr True"
      and pl: "players gs = player # others"
      and fl: "filter (\<lambda>x. id_c x \<in> set (selectedCards app)) (hand player) = [c]"
      by auto
    note r = playSelectedCards_single[OF g ti pl fl nj sp']
    from e r seeded_grown[OF assms, of "suit c"]
    show "hasSeven (seqs (suit c)) \<and>
       playSelectedCards app =
         Inr (app\<lparr>gameState := Some (gs\<lparr>
                players := player\<lparr>hand := filter (\<lambda>x. id_c x \<noteq> id_c c) (hand player)\<rparr> # others,
                boardSequences := seqs(suit c := extendSeq (seqs (suit c)) (sortValue c)),
                tutorialStep := nextStep gs\<rparr>),
              selectedCards := []\<rparr>) \<and>
       grownByOne (seqs (suit c)) (extendSeq (seqs (suit c)) (sortValue c)) \<and>
       seeded (seqs(suit c := extendSeq (seqs (suit c)) (sortValue c)))"
      by simp
  qed
next
  show "newSequences st = seqs \<and> botMeld st = None \<and> botStep st = Some st' \<and>
     (\<forall>x \<in> set (newHand st). isJoker x \<or> suit x \<in> set SUITS) \<longrightarrow>
       seeded (newSequences st') \<and>
       (\<exists>t \<in> set SUITS.
          (\<not> hasSeven (seqs t) \<and> newSequences st' = seqs(t := (seqs t)\<lparr>hasSeven := True\<rparr>)) \<or>
          (hasSeven (seqs t) \<and>
             (\<exists>sq. newSequences st' = seqs(t := sq) \<and> grownByOne (seqs t) sq)))"
    using assms botStep_seeded[of st st'] botStep_outcome[of st st'] by auto
next
  show "s \<in> set SUITS \<and> hasSeven (seqs s) \<longrightarrow>
       low (seqs s) \<le> 7 \<and> 7 \<le> high (seqs s) \<and>
       (gameState app = Some gs \<and> boardSequences gs = seqs \<and>
        playSelectedCards app = Inr app' \<and> gameState app' = Some gs' \<longrightarrow>
          seeded (boardSequences gs') \<and>
          (boardSequences gs' s = seqs s \<or> grownByOne (seqs s) (boardSequences gs' s))) \<and>
       (newSequences st = seqs \<and> botStep st = Some st' \<longrightarrow>
          seeded (newSequences st') \<and>
          (newSequences st' s = seqs s \<or> grownByOne (seqs s) (newSequences st' s)))"
  proof
    assume a: "s \<in> set SUITS \<and> hasSeven (seqs s)"
    with seeded_suit[OF assms] have inv: "hasSeven (seqs s)" "low (seqs s) \<le> 7" "7 \<le> high (seqs s)"
      by auto
    have h: "seeded (boardSequences gs') \<and>
          (boardSequences gs' s = seqs s \<or> grownByOne (seqs s) (boardSequences gs' s))"
      if b: "gameState app = Some gs \<and> boardSequences gs = seqs \<and>
        playSelectedCards app = Inr app' \<and> gameState app' = Some gs'"
    proof -
      from b have g: "gameState app = Some gs" "playSelectedCards app = Inr app'"
        "gameState app' = Some gs'" and bs: "boardSequences gs = seqs"
        by auto
      from playSelectedCards_seeded[OF g] assms bs have "seeded (boardSequences gs')" by simp
      moreover from playSelectedCards_board[OF g] bs standardCardPlay_step inv
      have "boardSequences gs' s = seqs s \<or> grownByOne (seqs s) (boardSequences gs' s)"
        by metis
      ultimately show ?thesis by simp
    qed
    have k: "seeded (newSequences st') \<and>
          (newSequences st' s = seqs s \<or> grownByOne (seqs s) (newSequences st' s))"
      if b: "newSequences st = seqs \<and> botStep st = Some st'"
      using b botStep_seeded[of st st'] botStep_step[of st st' s] inv assms by auto
    from inv h k
    show "low (seqs s) \<le> 7 \<and> 7 \<le> high (seqs s) \<and>
       (gameState app = Some gs \<and> boardSequences gs = seqs \<and>
        playSelectedCards app = Inr app' \<and> gameState app' = Some gs' \<longrightarrow>
          seeded (boardSequences gs') \<and>
          (boardSequences gs' s = seqs s \<or> grownByOne (seqs s) (boardSequences gs' s))) \<and>
       (newSequences st = seqs \<and> botStep st = Some st' \<longrightarrow>
          seeded (newSequences st') \<and>
          (newSequences st' s = seqs s \<or> grownByOne (seqs s) (newSequences st' s)))"
      by blast
  qed
next
  show "newSequences st = seqs \<longrightarrow> seeded (newSequences (botLoop st))"
    using assms botLoop_seeded by auto
next
  show "seeded initialSequences" by (rule seeded_initialSequences)
qed

text \<open>
  The human plays the eight of hearts on a board where hearts stands at 7: the high end
  moves to 8. The bot, on the same board, plays its six of hearts: the low end moves to 6.
  The bot holding a joker and the nine of clubs places the joker as the eight of hearts:
  the high end moves to 8.
\<close>

lemma play_eight:
  "playSelectedCards example_play_eight = Inr (example_app\<lparr>gameState := Some example_after_eight\<rparr>)"
  by (simp add: playSelectedCards_def tutorialInterception_def example_play_eight_def
      example_app_def example_game_def example_human_def mkCard_def standardCardPlay_def
      canPlayOnBoard_def hearts_started_def extendSeq_def getSortValue_def RANKS_def
      nextStep_def example_after_eight_def)

lemma bot_six: "botStep example_bot_state = Some example_bot_after_six"
proof -
  have m: "botMeld example_bot_state = None" by code_simp
  show ?thesis
    unfolding botStep_def m
    by (simp add: example_bot_state_def example_bot_def mkCard_def example_bot_after_six_def
        canPlayOnBoard_def hearts_started_def extendSeq_def getSortValue_def RANKS_def)
qed

lemma bot_joker: "botStep example_bot_before_joker = Some example_bot_after_joker"
proof -
  have m: "botMeld example_bot_before_joker = None" by code_simp
  show ?thesis
    unfolding botStep_def m
    by (simp add: example_bot_before_joker_def example_bot_state_def example_bot_def mkCard_def
        example_bot_after_joker_def SUITS_def jokerTarget_def ranksAt_def RANKS_def
        hearts_started_def initialSequences_def getSortValue_def)
qed

theorem C5_extension_invariant_witness:
  "seeded hearts_started \<and>
   tutorialInterception example_game (selectedCards example_play_eight) = Inr True \<and>
   filter (\<lambda>x. id_c x \<in> set (selectedCards example_play_eight)) (hand example_human)
     = [mkCard ''h8'' HEARTS EIGHT False] \<and>
   canPlayOnBoard (mkCard ''h8'' HEARTS EIGHT False) hearts_started \<and>
   playSelectedCards example_play_eight = Inr (example_app\<lparr>gameState := Some example_after_eight\<rparr>) \<and>
   grownByOne (hearts_started HEARTS) (boardSequences example_after_eight HEARTS) \<and>
   low (boardSequences example_after_eight HEARTS) = 7 \<and>
   high (boardSequences example_after_eight HEARTS) = 8 \<and>
   botMeld example_bot_state = None \<and>
   botStep example_bot_state = Some example_bot_after_six \<and>
   grownByOne (hearts_started HEARTS) (newSequences example_bot_after_six HEARTS) \<and>
   low (newSequences example_bot_after_six HEARTS) = 6 \<and>
   high (newSequences example_bot_after_six HEARTS) = 7 \<and>
   botMeld example_bot_before_joker = None \<and>
   botStep example_bot_before_joker = Some example_bot_after_joker \<and>
   seeded (newSequences example_bot_after_joker) \<and>
   grownByOne (hearts_started HEARTS) (newSequences example_bot_after_joker HEARTS) \<and>
   low (newSequences example_bot_after_joker HEARTS) = 7 \<and>
   high (newSequences example_bot_after_joker HEARTS) = 8"
proof -
  let ?c = "mkCard ''h8'' HEARTS EIGHT False"
  have sd: "seeded hearts_started"
    by (simp add: seeded_def hearts_started_def initialSequences_def SUITS_def)
  have hu: "gameState example_play_eight = Some example_game \<and>
     boardSequences example_game = hearts_started \<and>
     tutorialInterception example_game (selectedCards example_play_eight) = Inr True \<and>
     players example_game = example_human # [example_bot] \<and>
     filter (\<lambda>x. id_c x \<in> set (selectedCards example_play_eight)) (hand example_human) = [?c] \<and>
     \<not> isJoker ?c \<and> rank ?c \<noteq> SEVEN \<and> suit ?c \<in> set SUITS \<and>
     canPlayOnBoard ?c hearts_started"
    by (simp add: example_play_eight_def example_app_def example_game_def example_human_def
        tutorialInterception_def mkCard_def SUITS_def canPlayOnBoard_def hearts_started_def
        getSortValue_def RANKS_def)
  note t1 = C5_extension_invariant [OF sd, THEN conjunct1, THEN mp, OF hu]
  have ex: "extendSeq (hearts_started HEARTS) (sortValue ?c)
      = boardSequences example_after_eight HEARTS"
    by (simp add: extendSeq_def hearts_started_def mkCard_def getSortValue_def RANKS_def
        example_after_eight_def)
  have sc: "suit ?c = HEARTS" by (simp add: mkCard_def)
  from t1 have g1: "grownByOne (hearts_started HEARTS) (boardSequences example_after_eight HEARTS)"
    unfolding sc ex by blast
  have cards: "\<forall>x \<in> set (newHand example_bot_before_joker). isJoker x \<or> suit x \<in> set SUITS"
    by (simp add: example_bot_before_joker_def mkCard_def SUITS_def)
  have m: "botMeld example_bot_state = None" "botMeld example_bot_before_joker = None"
    by code_simp+
  have ns: "newSequences example_bot_before_joker = hearts_started"
    "newSequences example_bot_state = hearts_started"
    by (simp_all add: example_bot_before_joker_def example_bot_state_def)
  from C5_extension_invariant [OF sd, THEN conjunct2, THEN conjunct1, THEN mp,
      of example_bot_before_joker example_bot_after_joker] ns m bot_joker cards
  have s2: "seeded (newSequences example_bot_after_joker)" by blast
  have hs: "HEARTS \<in> set SUITS \<and> hasSeven (hearts_started HEARTS)"
    by (simp add: SUITS_def hearts_started_def)
  from C5_extension_invariant [OF sd, THEN conjunct2, THEN conjunct2, THEN conjunct1, THEN mp,
      OF hs, THEN conjunct2, THEN conjunct2, THEN conjunct2, THEN mp,
      of example_bot_state example_bot_after_six] ns bot_six
  have d3: "newSequences example_bot_after_six HEARTS = hearts_started HEARTS \<or>
      grownByOne (hearts_started HEARTS) (newSequences example_bot_after_six HEARTS)"
    by blast
  have "newSequences example_bot_after_six HEARTS \<noteq> hearts_started HEARTS"
    by (simp add: example_bot_after_six_def hearts_started_def)
  with d3 have g3: "grownByOne (hearts_started HEARTS) (newSequences example_bot_after_six HEARTS)"
    by blast
  from C5_extension_invariant [OF sd, THEN conjunct2, THEN conjunct2, THEN conjunct1, THEN mp,
      OF hs, THEN conjunct2, THEN conjunct2, THEN conjunct2, THEN mp,
      of example_bot_before_joker example_bot_after_joker] ns bot_joker
  have d4: "newSequences example_bot_after_joker HEARTS = hearts_started HEARTS \<or>
      grownByOne (hearts_started HEARTS) (newSequences example_bot_after_joker HEARTS)"
    by blast
  have "newSequences example_bot_after_joker HEARTS \<noteq> hearts_started HEARTS"
    by (simp add: example_bot_after_joker_def hearts_started_def)
  with d4 have g4: "grownByOne (hearts_started HEARTS) (newSequences example_bot_after_joker HEARTS)"
    by blast
  have vals: "low (boardSequences example_after_eight HEARTS) = 7"
    "high (boardSequences example_after_eight HEARTS) = 8"
    "low (newSequences example_bot_after_six HEARTS) = 6"
    "high (newSequences example_bot_after_six HEARTS) = 7"
    "low (newSequences example_bot_after_joker HEARTS) = 7"
    "high (newSequences example_bot_after_joker HEARTS) = 8"
    by (simp_all add: example_after_eight_def example_bot_after_six_def
        example_bot_after_joker_def)
  from sd hu play_eight g1 m bot_six g3 bot_joker s2 g4 vals show ?thesis by simp
qed

section \<open>Declaring a single joker\<close>

lemma ranksAt_in_RANKS:
  assumes "ranksAt i = Some r"
  shows "r \<in> set RANKS"
proof -
  from assms have "0 \<le> i" "i < int (length RANKS)" and r: "r = RANKS ! nat i"
    by (simp_all add: ranksAt_def split: if_splits)
  then have "nat i < length RANKS" by linarith
  then show ?thesis unfolding r by (rule nth_mem)
qed

lemma getSortValue_values:
  "getSortValue ACE = 1" "getSortValue TWO = 2" "getSortValue THREE = 3"
  "getSortValue FOUR = 4" "getSortValue FIVE = 5" "getSortValue SIX = 6"
  "getSortValue SEVEN = 7" "getSortValue EIGHT = 8" "getSortValue NINE = 9"
  "getSortValue TEN = 10" "getSortValue JACK = 11" "getSortValue QUEEN = 12"
  "getSortValue KING = 13"
  by (simp_all add: getSortValue_def RANKS_def)

lemma ranksAt_values:
  "ranksAt 0 = Some ACE" "ranksAt 1 = Some TWO" "ranksAt 2 = Some THREE"
  "ranksAt 3 = Some FOUR" "ranksAt 4 = Some FIVE" "ranksAt 5 = Some SIX"
  "ranksAt 6 = Some SEVEN" "ranksAt 7 = Some EIGHT" "ranksAt 8 = Some NINE"
  "ranksAt 9 = Some TEN" "ranksAt 10 = Some JACK" "ranksAt 11 = Some QUEEN"
  "ranksAt 12 = Some KING"
  by (simp_all add: ranksAt_def RANKS_def)

lemma getSortValue_RANKS:
  assumes "r \<in> set RANKS"
  shows "1 \<le> getSortValue r \<and> getSortValue r \<le> 13 \<and> ranksAt (getSortValue r - 1) = Some r"
proof -
  from assms have "r = ACE \<or> r = TWO \<or> r = THREE \<or> r = FOUR \<or> r = FIVE \<or> r = SIX \<or>
      r = SEVEN \<or> r = EIGHT \<or> r = NINE \<or> r = TEN \<or> r = JACK \<or> r = QUEEN \<or> r = KING"
    by (simp add: RANKS_def)
  then show ?thesis
    by (elim disjE) (simp_all add: getSortValue_values ranksAt_values)
qed

lemma canPlayOnBoard_real_card:
  "r \<noteq> SEVEN \<Longrightarrow>
   canPlayOnBoard (mkCard i s r False) seqs \<longleftrightarrow>
     hasSeven (seqs s) \<and>
     (getSortValue r = high (seqs s) + 1 \<or> getSortValue r = low (seqs s) - 1)"
  by (simp add: canPlayOnBoard_def mkCard_def Let_def)

lemma jokerOptions_iff:
  assumes "seeded seqs"
  shows "(s, ro) \<in> set (jokerOptions seqs) \<longleftrightarrow>
     (\<exists>r. ro = Some r \<and> s \<in> set SUITS \<and> r \<in> set RANKS \<and> r \<noteq> SEVEN \<and>
          canPlayOnBoard (mkCard i s r False) seqs)"
proof
  assume "(s, ro) \<in> set (jokerOptions seqs)"
  then have s: "s \<in> set SUITS" "hasSeven (seqs s)" and ro: "ro \<noteq> Some SEVEN"
    and src: "(1 \<le> low (seqs s) - 1 \<and> ro = ranksAt (low (seqs s) - 2)) \<or>
              (high (seqs s) + 1 \<le> 13 \<and> ro = ranksAt (high (seqs s)))"
    by (auto simp: jokerOptions_def jokerOptionsOf_def Let_def split: if_splits)
  from seeded_suit[OF assms s] have inv: "low (seqs s) \<le> 7" "7 \<le> high (seqs s)" by auto
  from src inv obtain r where r: "ro = Some r"
    and adj: "ranksAt (low (seqs s) - 2) = Some r \<or> ranksAt (high (seqs s)) = Some r"
    using ranksAt_defined[of "low (seqs s) - 2"] ranksAt_defined[of "high (seqs s)"]
    by (cases ro) auto
  from adj have "r \<in> set RANKS" using ranksAt_in_RANKS by blast
  moreover from adj have "getSortValue r = low (seqs s) - 1 \<or> getSortValue r = high (seqs s) + 1"
    using ranksAt_Some[of "low (seqs s) - 2" r] ranksAt_Some[of "high (seqs s)" r] by auto
  moreover from ro r have "r \<noteq> SEVEN" by simp
  ultimately show "\<exists>r. ro = Some r \<and> s \<in> set SUITS \<and> r \<in> set RANKS \<and> r \<noteq> SEVEN \<and>
          canPlayOnBoard (mkCard i s r False) seqs"
    using r s by (auto simp: canPlayOnBoard_real_card)
next
  assume "\<exists>r. ro = Some r \<and> s \<in> set SUITS \<and> r \<in> set RANKS \<and> r \<noteq> SEVEN \<and>
          canPlayOnBoard (mkCard i s r False) seqs"
  then obtain r where r: "ro = Some r" "s \<in> set SUITS" "r \<in> set RANKS" "r \<noteq> SEVEN"
    and hs: "hasSeven (seqs s)"
    and adj: "getSortValue r = high (seqs s) + 1 \<or> getSortValue r = low (seqs s) - 1"
    by (auto simp: canPlayOnBoard_real_card)
  note g = getSortValue_RANKS[OF r(3)]
  from r(2) have sj: "s \<noteq> JOKER" by (auto simp: SUITS_def)
  from adj show "(s, ro) \<in> set (jokerOptions seqs)"
  proof
    assume h: "getSortValue r = high (seqs s) + 1"
    with g have "high (seqs s) + 1 \<le> 13" "ranksAt (high (seqs s)) = Some r" by auto
    with r hs sj show ?thesis
      by (auto simp: jokerOptions_def jokerOptionsOf_def Let_def)
  next
    assume l: "getSortValue r = low (seqs s) - 1"
    with g have "1 \<le> low (seqs s) - 1" "ranksAt (low (seqs s) - 2) = Some r"
      by (auto simp: algebra_simps)
    with r hs sj show ?thesis
      by (auto simp: jokerOptions_def jokerOptionsOf_def Let_def)
  qed
qed

lemma jokerOptions_defined:
  assumes "seeded seqs"
  shows "(s, None) \<notin> set (jokerOptions seqs)"
  using jokerOptions_iff[OF assms, of s None "[]"] by simp





text \<open>
  Every operation on the state leaves a seeded board seeded: a play of the human, a
  declaration in the dialog, a claim of the discard, a knock, the start of the next round
  and a whole turn of the bot.
\<close>

lemma extendSeq_keeps_seven:
  assumes "hasSeven seq" "low seq \<le> 7" "7 \<le> high seq"
  shows "hasSeven (extendSeq seq v) \<and> low (extendSeq seq v) \<le> 7 \<and> 7 \<le> high (extendSeq seq v)"
  using assms by (auto simp: extendSeq_def Let_def)

lemma confirmSingleJokerMove_board:
  assumes "gameState app = Some gs" "confirmSingleJokerMove app s r = Inr app'"
    "gameState app' = Some gs'"
  shows "boardSequences gs' = boardSequences gs \<or>
         boardSequences gs' = (boardSequences gs)(s :=
            extendSeq (boardSequences gs s) (getSortValue r))"
  using assms
  by (auto simp: confirmSingleJokerMove_def Let_def split: option.splits list.splits if_splits)

lemma declareJokerInDialog_seeded:
  assumes "gameState app = Some gs" "declareJokerInDialog app s r = Inr app'"
    "gameState app' = Some gs'" "seeded (boardSequences gs)"
  shows "seeded (boardSequences gs')"
proof (cases "(s, Some r) \<in> set (jokerOptions (boardSequences gs))")
  case False
  with assms show ?thesis by (simp add: declareJokerInDialog_def)
next
  case True
  then have s: "s \<in> set SUITS" "hasSeven (boardSequences gs s)"
    using jokerOptions_iff[OF assms(4), of s "Some r" "[]"]
    by (auto simp: canPlayOnBoard_real_card)
  from True assms(1,2) have c: "confirmSingleJokerMove app s r = Inr app'"
    by (simp add: declareJokerInDialog_def)
  from seeded_suit[OF assms(4) s] extendSeq_keeps_seven[OF s(2)]
  have "seeded ((boardSequences gs)(s := extendSeq (boardSequences gs s) (getSortValue r)))"
    by (intro seeded_update[OF assms(4)]) auto
  with confirmSingleJokerMove_board[OF assms(1) c assms(3)] assms(4) show ?thesis by auto
qed

lemma doPong_board:
  assumes "gameState app = Some gs" "doPong app = Inr app'" "gameState app' = Some gs'"
  shows "boardSequences gs' = boardSequences gs"
  using assms
  by (auto simp: doPong_def cancelPong_def Let_def
      split: option.splits list.splits sum.splits if_splits)

lemma handleKnock_board:
  assumes "gameState app = Some gs" "handleKnock app = Inr app'" "gameState app' = Some gs'"
  shows "boardSequences gs' = boardSequences gs"
  using assms
  by (auto simp: handleKnock_def processRoundEnd_def Let_def
      split: option.splits list.splits sum.splits if_splits)

lemma startNextRound_board:
  assumes "gameState app = Some gs" "startNextRound app shuffled = Inr app'"
    "gameState app' = Some gs'"
  shows "boardSequences gs' = boardSequences gs \<or> boardSequences gs' = initialSequences"
  using assms
  by (auto simp: startNextRound_def Let_def
      split: option.splits list.splits sum.splits if_splits prod.splits)

lemma botTurn_board:
  assumes "gameState app = Some gs" "botTurn app = Inr app'" "gameState app' = Some gs'"
  shows "boardSequences gs' = boardSequences gs \<or>
         (\<exists>st. newSequences st = boardSequences gs \<and> boardSequences gs' = newSequences (botLoop st))"
proof -
  have n: "boardSequences gs' = newSequences (botLoop
        \<lparr>newHand = hand b, newMelds = melds b, newSequences = boardSequences gs,
         newJokerDeclarations = jokerDeclarations gs, movesMade = 0\<rparr>)"
    if "normalBot app gs = Inr app'" "at_index (players gs) (currentPlayerIndex gs) = Some b" for b
    using that assms(3)
    by (auto simp: normalBot_def Let_def split: sum.splits option.splits list.splits if_splits)
  have nb: "\<exists>b. at_index (players gs) (currentPlayerIndex gs) = Some b"
    if "normalBot app gs = Inr app'"
    using that by (cases "at_index (players gs) (currentPlayerIndex gs)") (auto simp: normalBot_def)
  have t: "boardSequences gs' = boardSequences gs" if "tutorialBot app gs = Inr app'"
    using that assms(3)
    by (auto simp: tutorialBot_def Let_def split: option.splits list.splits prod.splits)
  from assms(1,2) have "app' = app \<or> tutorialBot app gs = Inr app' \<or> normalBot app gs = Inr app'"
    by (auto simp: botTurn_def split: if_splits)
  then show ?thesis
  proof (elim disjE)
    assume "app' = app"
    with assms show ?thesis by simp
  next
    assume "tutorialBot app gs = Inr app'"
    from t[OF this] show ?thesis by simp
  next
    assume nbot: "normalBot app gs = Inr app'"
    from nb[OF this] obtain b where "at_index (players gs) (currentPlayerIndex gs) = Some b" ..
    from n[OF nbot this] show ?thesis
      by (intro disjI2 exI[of _ "\<lparr>newHand = hand b, newMelds = melds b,
         newSequences = boardSequences gs,
         newJokerDeclarations = jokerDeclarations gs, movesMade = 0\<rparr>"]) simp
  qed
qed

lemma seeded_operations:
  assumes "gameState app = Some gs" and "seeded (boardSequences gs)"
    and "gameState app' = Some gs'"
    and "playSelectedCards app = Inr app' \<or> declareJokerInDialog app s r = Inr app' \<or>
         doPong app = Inr app' \<or> handleKnock app = Inr app' \<or>
         startNextRound app shuffled = Inr app' \<or> botTurn app = Inr app'"
  shows "seeded (boardSequences gs')"
  using assms(4)
proof (elim disjE)
  assume "playSelectedCards app = Inr app'"
  from playSelectedCards_seeded[OF assms(1) this assms(3) assms(2)] show ?thesis .
next
  assume "declareJokerInDialog app s r = Inr app'"
  from declareJokerInDialog_seeded[OF assms(1) this assms(3) assms(2)] show ?thesis .
next
  assume "doPong app = Inr app'"
  from doPong_board[OF assms(1) this assms(3)] assms(2) show ?thesis by simp
next
  assume "handleKnock app = Inr app'"
  from handleKnock_board[OF assms(1) this assms(3)] assms(2) show ?thesis by simp
next
  assume "startNextRound app shuffled = Inr app'"
  from startNextRound_board[OF assms(1) this assms(3)] assms(2) seeded_initialSequences
  show ?thesis by auto
next
  assume "botTurn app = Inr app'"
  from botTurn_board[OF assms(1) this assms(3)] assms(2) botLoop_seeded
  show ?thesis by auto
qed

section \<open>Claiming a discarded seven\<close>

lemma positionsWhere_snoc:
  "positionsWhere P (xs @ [x]) = positionsWhere P xs @ (if P x then [length xs] else [])"
  by (auto simp: positionsWhere_def nth_append intro: filter_cong)

lemma length_positionsWhere: "length (positionsWhere P xs) = length (filter P xs)"
  by (induction xs rule: rev_induct) (simp_all add: positionsWhere_snoc, simp add: positionsWhere_def)

lemma positionsWhere_holds: "i \<in> set (positionsWhere P xs) \<Longrightarrow> P (xs ! i)"
  by (simp add: positionsWhere_def)

lemma cardsToUseAt_joker:
  assumes "length (filter (\<lambda>c. rank c = rank discard \<and> \<not> isJoker c) h) < 2"
    and "\<exists>c \<in> set h. isJoker c"
  shows "\<exists>usedAt. cardsToUseAt h discard = Inr usedAt \<and> (\<exists>i \<in> set usedAt. isJoker (h ! i))"
proof -
  let ?nm = "positionsWhere (\<lambda>c. rank c = rank discard \<and> \<not> isJoker c) h"
  let ?js = "positionsWhere isJoker h"
  from assms(2) have "filter isJoker h \<noteq> []" by (auto simp: filter_empty_conv)
  then have "?js \<noteq> []" using length_positionsWhere[of isJoker h] by auto
  then obtain j js where js: "?js = j # js" by (cases ?js) auto
  then have "j \<in> set ?js" by simp
  then have j: "isJoker (h ! j)" by (rule positionsWhere_holds)
  from assms(1) have "length ?nm < 2" by (simp add: length_positionsWhere)
  then consider "length ?nm = 1" | "length ?nm = 0" by linarith
  then show ?thesis
  proof cases
    case 1
    then have "cardsToUseAt h discard = Inr [hd ?nm, j]"
      by (simp add: cardsToUseAt_def Let_def js)
    with j show ?thesis by simp
  next
    case 2
    then have "cardsToUseAt h discard = Inr (take 2 ?js)"
      by (simp add: cardsToUseAt_def Let_def)
    with j js show ?thesis by simp
  qed
qed

text \<open>
  Claim C6. A claim on a discarded seven by a hand with fewer than two natural sevens and
  at least one joker (so that doPong would put a joker into the group) is rejected,
  whatever else the hand holds: the result is the state as it was, with only the pending
  claim cleared (outside the tutorial). The players, with their hands and melds, and the
  discard pile are untouched, and no meld action is left pending.
\<close>

theorem C6_doPong_seven_with_joker:
  assumes "gameState app = Some gs" and "pendingPong gs = Some pp"
    and "players gs = human # others"
    and "rank (card_pp pp) = SEVEN"
    and "length (filter (\<lambda>c. rank c = SEVEN \<and> \<not> isJoker c) (hand human)) < 2"
    and "\<exists>c \<in> set (hand human). isJoker c"
  shows "doPong app =
           Inr (app\<lparr>gameState :=
              Some (gs\<lparr>pendingPong := (if isTutorial gs then pendingPong gs else None)\<rparr>)\<rparr>)"
proof -
  from cardsToUseAt_joker[of "card_pp pp" "hand human"] assms(4-6)
  obtain usedAt i where u: "cardsToUseAt (hand human) (card_pp pp) = Inr usedAt"
    and i: "i \<in> set usedAt" "isJoker (hand human ! i)"
    by auto
  then have "filter isJoker (map (\<lambda>i. hand human ! i) usedAt) \<noteq> []"
    by (auto simp: filter_empty_conv)
  then have "doPong app = Inr (cancelPong app)"
    using assms(1-4) u by (simp add: doPong_def Let_def)
  moreover have "cancelPong app =
      app\<lparr>gameState := Some (gs\<lparr>pendingPong := (if isTutorial gs then pendingPong gs else None)\<rparr>)\<rparr>"
    using assms(1) by (simp add: cancelPong_def)
  ultimately show ?thesis by simp
qed

text \<open>
  The seven of spades is discarded; the human holds the seven of diamonds, a king and a
  joker. doPong leaves hand, melds and discard pile alone and clears the pending claim.
\<close>

theorem C6_doPong_seven_with_joker_witness:
  "gameState example_pong_seven = Some example_pong_game \<and>
   pendingPong example_pong_game
     = Some \<lparr>card_pp = mkCard ''s7'' SPADES SEVEN False, discarderIndex = 1\<rparr> \<and>
   players example_pong_game = hd (players example_pong_game) # [example_bot] \<and>
   rank (mkCard ''s7'' SPADES SEVEN False) = SEVEN \<and>
   length (filter (\<lambda>c. rank c = SEVEN \<and> \<not> isJoker c)
      (hand (hd (players example_pong_game)))) < 2 \<and>
   (\<exists>c \<in> set (hand (hd (players example_pong_game))). isJoker c) \<and>
   doPong example_pong_seven
     = Inr (example_app\<lparr>gameState := Some (example_pong_game\<lparr>pendingPong := None\<rparr>)\<rparr>)"
proof -
  let ?pp = "\<lparr>card_pp = mkCard ''s7'' SPADES SEVEN False, discarderIndex = 1\<rparr>"
  have a: "gameState example_pong_seven = Some example_pong_game"
    "pendingPong example_pong_game = Some ?pp"
    "players example_pong_game = hd (players example_pong_game) # [example_bot]"
    "rank (card_pp ?pp) = SEVEN"
    "length (filter (\<lambda>c. rank c = SEVEN \<and> \<not> isJoker c)
       (hand (hd (players example_pong_game)))) < 2"
    "\<exists>c \<in> set (hand (hd (players example_pong_game))). isJoker c"
    by (simp_all add: example_pong_seven_def example_pong_game_def mkCard_def)
  have t: "\<not> isTutorial example_pong_game"
    by (simp add: example_pong_game_def example_game_def)
  show ?thesis
    using a C6_doPong_seven_with_joker [OF a] t
    by (simp add: example_pong_seven_def)
qed

section \<open>Knocking\<close>

lemma discardIndexOf_fold:
  "fst (foldl (\<lambda>(discardIndex, maxVal) (c, i).
                   if value_c c > maxVal then (i, value_c c) else (discardIndex, maxVal))
            (d, m) zs) \<in> insert d (snd ` set zs)"
  by (induction zs arbitrary: d m) (auto split: prod.splits)

lemma discardIndexOf_in_range: "h \<noteq> [] \<Longrightarrow> discardIndexOf h < length h"
  using discardIndexOf_fold[of 0 "-1" "zip h [0..<length h]"]
  by (auto simp: discardIndexOf_def dest: set_zip_rightD)

lemma calculateHandPoints_Nil: "calculateHandPoints [] = 0"
  by (simp add: calculateHandPoints_def)

lemma map_score_mapAt:
  "(\<And>p. score (f p) = score p) \<Longrightarrow> map score (mapAt k f ps) = map score ps"
  by (induction k f ps rule: mapAt.induct) simp_all

lemma processRoundEnd_ok:
  assumes "gameState app = Some gs" "k < length ps"
  shows "\<exists>ps'. applyFinalScores ps k (jokerDeclarations gs) = Inr ps' \<and>
     processRoundEnd app ps k =
       Inr (app\<lparr>gameState := Some (gs\<lparr>players := ps', turnPhase := ROUND_OVER\<rparr>),
               roundSummary := Some \<lparr>roundPoints =
                   map (\<lambda>(p, prev). score p - prev) (zip ps' (map score ps)),
                 previousScores = map score ps,
                 updatedPlayers = ps', knockerIndex = k\<rparr>\<rparr>)"
proof -
  from applyFinalScores_total obtain ps' where
    "applyFinalScores ps k (jokerDeclarations gs) = Inr ps'" by blast
  with assms show ?thesis
    by (simp add: processRoundEnd_def Let_def at_index_def)
qed

text \<open>
  Claim C7. Outside the tutorial: a knock by the human whose hand points (the plain sum
  of the card values, no penalty) exceed 5 is rejected and leaves the whole state as it
  was, so the round does not end and no score changes; with hand points at most 5 the
  round ends with the scores of applyFinalScores. The bot, after its play loop, ends the
  round with the scores of applyFinalScores when the points of the hand it is left with
  are at most 5, and otherwise (it draws and discards) it leaves the phase and every score
  as they were: it knocks exactly when those points are at most 5.
\<close>

theorem C7_knock_eligibility:
  "(gameState app = Some gs \<and> \<not> isTutorial gs \<and> players gs = player # others \<longrightarrow>
      (calculateHandPoints (hand player) > 5 \<longrightarrow> handleKnock app = Inr app) \<and>
      (calculateHandPoints (hand player) \<le> 5 \<longrightarrow>
         (\<exists>app' gs'. handleKnock app = Inr app' \<and> gameState app' = Some gs' \<and>
            turnPhase gs' = ROUND_OVER \<and>
            applyFinalScores (players gs) 0 (jokerDeclarations gs) = Inr (players gs')))) \<and>
   (gameState app = Some gs \<and> \<not> isTutorial gs \<and> gameStarted app \<and>
    (turnPhase gs = ACTION \<or> turnPhase gs = DISCARD) \<and> pendingPong gs = None \<and>
    currentPlayerIndex gs \<noteq> 0 \<and> at_index (players gs) (currentPlayerIndex gs) = Some b \<and>
    st = botLoop \<lparr>newHand = hand b, newMelds = melds b, newSequences = boardSequences gs,
                   newJokerDeclarations = jokerDeclarations gs, movesMade = 0\<rparr> \<longrightarrow>
      (\<exists>app' gs'. botTurn app = Inr app' \<and> gameState app' = Some gs' \<and>
         (calculateHandPoints (newHand st) \<le> 5 \<longrightarrow>
            turnPhase gs' = ROUND_OVER \<and>
            applyFinalScores
              (mapAt (currentPlayerIndex gs) (\<lambda>p. p\<lparr>hand := newHand st, melds := newMelds st\<rparr>)
                 (players gs))
              (currentPlayerIndex gs) (newJokerDeclarations st) = Inr (players gs')) \<and>
         (calculateHandPoints (newHand st) > 5 \<longrightarrow>
            turnPhase gs' = turnPhase gs \<and> turnPhase gs' \<noteq> ROUND_OVER \<and>
            map score (players gs') = map score (players gs))))"
proof (rule conjI; rule impI)
  assume a: "gameState app = Some gs \<and> \<not> isTutorial gs \<and> players gs = player # others"
  show "(calculateHandPoints (hand player) > 5 \<longrightarrow> handleKnock app = Inr app) \<and>
      (calculateHandPoints (hand player) \<le> 5 \<longrightarrow>
         (\<exists>app' gs'. handleKnock app = Inr app' \<and> gameState app' = Some gs' \<and>
            turnPhase gs' = ROUND_OVER \<and>
            applyFinalScores (players gs) 0 (jokerDeclarations gs) = Inr (players gs')))"
  proof (rule conjI; rule impI)
    assume "calculateHandPoints (hand player) > 5"
    with a show "handleKnock app = Inr app" by (simp add: handleKnock_def)
  next
    assume le: "calculateHandPoints (hand player) \<le> 5"
    from a have "0 < length (players gs)" by simp
    from processRoundEnd_ok[OF _ this, of app gs] a
    obtain ps' where "applyFinalScores (players gs) 0 (jokerDeclarations gs) = Inr ps'"
      and "processRoundEnd app (players gs) 0 =
       Inr (app\<lparr>gameState := Some (gs\<lparr>players := ps', turnPhase := ROUND_OVER\<rparr>),
               roundSummary := Some \<lparr>roundPoints =
                   map (\<lambda>(p, prev). score p - prev) (zip ps' (map score (players gs))),
                 previousScores = map score (players gs),
                 updatedPlayers = ps', knockerIndex = 0\<rparr>\<rparr>)"
      by blast
    with a le show "\<exists>app' gs'. handleKnock app = Inr app' \<and> gameState app' = Some gs' \<and>
            turnPhase gs' = ROUND_OVER \<and>
            applyFinalScores (players gs) 0 (jokerDeclarations gs) = Inr (players gs')"
      by (simp add: handleKnock_def)
  qed
next
  assume a: "gameState app = Some gs \<and> \<not> isTutorial gs \<and> gameStarted app \<and>
    (turnPhase gs = ACTION \<or> turnPhase gs = DISCARD) \<and> pendingPong gs = None \<and>
    currentPlayerIndex gs \<noteq> 0 \<and> at_index (players gs) (currentPlayerIndex gs) = Some b \<and>
    st = botLoop \<lparr>newHand = hand b, newMelds = melds b, newSequences = boardSequences gs,
                   newJokerDeclarations = jokerDeclarations gs, movesMade = 0\<rparr>"
  then have bt: "botTurn app = normalBot app gs"
    by (auto simp: botTurn_def)
  let ?k = "currentPlayerIndex gs"
  let ?tmp = "mapAt ?k (\<lambda>p. p\<lparr>hand := newHand st, melds := newMelds st\<rparr>) (players gs)"
  show "\<exists>app' gs'. botTurn app = Inr app' \<and> gameState app' = Some gs' \<and>
         (calculateHandPoints (newHand st) \<le> 5 \<longrightarrow>
            turnPhase gs' = ROUND_OVER \<and>
            applyFinalScores ?tmp ?k (newJokerDeclarations st) = Inr (players gs')) \<and>
         (calculateHandPoints (newHand st) > 5 \<longrightarrow>
            turnPhase gs' = turnPhase gs \<and> turnPhase gs' \<noteq> ROUND_OVER \<and>
            map score (players gs') = map score (players gs))"
  proof (cases "calculateHandPoints (newHand st) \<le> 5")
    case True
    from applyFinalScores_total obtain ps' where
      "applyFinalScores ?tmp ?k (newJokerDeclarations st) = Inr ps'" by blast
    with a True show ?thesis
      unfolding bt by (simp add: normalBot_def Let_def)
  next
    case False
    then have ne: "newHand st \<noteq> []" by (auto simp: calculateHandPoints_Nil)
    define hand1 where "hand1 = (case deck gs of [] \<Rightarrow> newHand st
        | d # ds \<Rightarrow> sort_key sortValue (newHand st @ [d]))"
    have "hand1 \<noteq> []"
      using ne by (auto simp: hand1_def split: list.splits dest: arg_cong[where f = length])
    from discardIndexOf_in_range[OF this]
    have ix: "at_index hand1 (discardIndexOf hand1) = Some (hand1 ! discardIndexOf hand1)"
      by (simp add: at_index_def)
    have sc: "map score (mapAt ?k (\<lambda>p. p\<lparr>hand := h2, melds := newMelds st\<rparr>) (players gs))
        = map score (players gs)" for h2
      by (rule map_score_mapAt) simp
    from a False ix sc show ?thesis
      unfolding bt
      by (cases "deck gs") (auto simp: normalBot_def Let_def hand1_def)
  qed
qed

text \<open>
  Four turns: the human with 48 points may not knock; the human with 4 points knocks (and
  is undercut); the bot left with a nine does not knock; the bot left with a two knocks.
\<close>

lemma example_loops:
  "newHand (botLoop example_bot_state) = [mkCard ''c9'' CLUBS NINE False]"
  "calculateHandPoints (newHand (botLoop example_bot_state)) = 9"
  "newHand (botLoop (example_bot_state\<lparr>newHand := hand example_bot_low\<rparr>))
     = [mkCard ''c2'' CLUBS TWO False]"
  "calculateHandPoints (newHand (botLoop (example_bot_state\<lparr>newHand := hand example_bot_low\<rparr>))) = 2"
  "newJokerDeclarations (botLoop (example_bot_state\<lparr>newHand := hand example_bot_low\<rparr>)) = []"
  "newMelds (botLoop (example_bot_state\<lparr>newHand := hand example_bot_low\<rparr>)) = []"
  by code_simp+

theorem C7_knock_eligibility_witness:
  "calculateHandPoints (hand example_human) > 5 \<and>
   handleKnock example_app = Inr example_app \<and>
   calculateHandPoints (hand example_knocker) \<le> 5 \<and>
   (\<exists>app' gs'. handleKnock example_low_app = Inr app' \<and> gameState app' = Some gs' \<and>
      turnPhase gs' = ROUND_OVER \<and> map score (players gs') = [16, 20]) \<and>
   calculateHandPoints (newHand (botLoop example_bot_state)) > 5 \<and>
   (\<exists>app' gs'. botTurn example_bot_turn = Inr app' \<and> gameState app' = Some gs' \<and>
      turnPhase gs' = ACTION \<and> map score (players gs') = [0, 0]) \<and>
   calculateHandPoints
     (newHand (botLoop (example_bot_state\<lparr>newHand := hand example_bot_low\<rparr>))) \<le> 5 \<and>
   (\<exists>app' gs'. botTurn example_bot_knocks = Inr app' \<and> gameState app' = Some gs' \<and>
      turnPhase gs' = ROUND_OVER \<and> map score (players gs') = [48, 2])"
proof -
  have p1: "calculateHandPoints (hand example_human) > 5"
    "calculateHandPoints (hand example_knocker) \<le> 5"
    by code_simp+
  have g1: "gameState example_app = Some example_game \<and> \<not> isTutorial example_game \<and>
      players example_game = example_human # [example_bot]"
    by (simp add: example_app_def example_game_def)
  from C7_knock_eligibility [THEN conjunct1, THEN mp, OF g1] p1
  have k1: "handleKnock example_app = Inr example_app" by blast
  let ?lg = "example_game\<lparr>players := [example_knocker, example_opponent]\<rparr>"
  have g2: "gameState example_low_app = Some ?lg \<and> \<not> isTutorial ?lg \<and>
      players ?lg = example_knocker # [example_opponent]"
    by (simp add: example_low_app_def example_game_def)
  have f2: "applyFinalScores [example_knocker, example_opponent] 0 []
      = Inr [example_knocker\<lparr>score := 16\<rparr>, example_opponent]"
    by code_simp
  from C7_knock_eligibility [THEN conjunct1, THEN mp, OF g2] p1
  obtain app2 gs2 where k2: "handleKnock example_low_app = Inr app2" "gameState app2 = Some gs2"
      "turnPhase gs2 = ROUND_OVER"
      "applyFinalScores (players ?lg) 0 (jokerDeclarations ?lg) = Inr (players gs2)"
    by blast
  from k2(4) f2 have "map score (players gs2) = [16, 20]"
    by (simp add: example_game_def example_opponent_def)
  with k2 have r2: "\<exists>app' gs'. handleKnock example_low_app = Inr app' \<and> gameState app' = Some gs' \<and>
      turnPhase gs' = ROUND_OVER \<and> map score (players gs') = [16, 20]"
    by auto
  let ?g3 = "example_game\<lparr>currentPlayerIndex := 1\<rparr>"
  have s3: "example_bot_state = \<lparr>newHand = hand example_bot, newMelds = melds example_bot,
      newSequences = boardSequences ?g3, newJokerDeclarations = jokerDeclarations ?g3,
      movesMade = 0\<rparr>"
    by (simp add: example_bot_state_def example_game_def)
  have g3: "gameState example_bot_turn = Some ?g3 \<and> \<not> isTutorial ?g3 \<and>
      gameStarted example_bot_turn \<and>
      (turnPhase ?g3 = ACTION \<or> turnPhase ?g3 = DISCARD) \<and> pendingPong ?g3 = None \<and>
      currentPlayerIndex ?g3 \<noteq> 0 \<and>
      at_index (players ?g3) (currentPlayerIndex ?g3) = Some example_bot \<and>
      botLoop example_bot_state = botLoop \<lparr>newHand = hand example_bot, newMelds = melds example_bot,
        newSequences = boardSequences ?g3, newJokerDeclarations = jokerDeclarations ?g3,
        movesMade = 0\<rparr>"
    unfolding s3[symmetric]
    by (simp add: example_bot_turn_def example_app_def example_game_def at_index_def)
  from C7_knock_eligibility [THEN conjunct2, THEN mp, OF g3] example_loops(2)
  have r3: "\<exists>app' gs'. botTurn example_bot_turn = Inr app' \<and> gameState app' = Some gs' \<and>
      turnPhase gs' = ACTION \<and> map score (players gs') = [0, 0]"
    by (auto simp: example_game_def example_human_def example_bot_def)
  let ?g4 = "example_game\<lparr>players := [example_human, example_bot_low], currentPlayerIndex := 1\<rparr>"
  let ?st4 = "botLoop (example_bot_state\<lparr>newHand := hand example_bot_low\<rparr>)"
  have s4: "example_bot_state\<lparr>newHand := hand example_bot_low\<rparr> =
      \<lparr>newHand = hand example_bot_low, newMelds = melds example_bot_low,
       newSequences = boardSequences ?g4, newJokerDeclarations = jokerDeclarations ?g4,
       movesMade = 0\<rparr>"
    by (simp add: example_bot_state_def example_game_def example_bot_low_def)
  have g4: "gameState example_bot_knocks = Some ?g4 \<and> \<not> isTutorial ?g4 \<and>
      gameStarted example_bot_knocks \<and>
      (turnPhase ?g4 = ACTION \<or> turnPhase ?g4 = DISCARD) \<and> pendingPong ?g4 = None \<and>
      currentPlayerIndex ?g4 \<noteq> 0 \<and>
      at_index (players ?g4) (currentPlayerIndex ?g4) = Some example_bot_low \<and>
      ?st4 = botLoop \<lparr>newHand = hand example_bot_low, newMelds = melds example_bot_low,
        newSequences = boardSequences ?g4, newJokerDeclarations = jokerDeclarations ?g4,
        movesMade = 0\<rparr>"
    unfolding s4[symmetric]
    by (simp add: example_bot_knocks_def example_app_def example_game_def at_index_def)
  have f4: "applyFinalScores
      [example_human, example_bot_low\<lparr>hand := [mkCard ''c2'' CLUBS TWO False], melds := []\<rparr>] 1 []
      = Inr [example_human\<lparr>score := 48\<rparr>,
             example_bot_low\<lparr>hand := [mkCard ''c2'' CLUBS TWO False], melds := [], score := 2\<rparr>]"
    by code_simp
  from C7_knock_eligibility [THEN conjunct2, THEN mp, OF g4] example_loops(4)
  obtain app4 gs4 where k4: "botTurn example_bot_knocks = Inr app4" "gameState app4 = Some gs4"
      "turnPhase gs4 = ROUND_OVER"
      "applyFinalScores
              (mapAt (currentPlayerIndex ?g4) (\<lambda>p. p\<lparr>hand := newHand ?st4, melds := newMelds ?st4\<rparr>)
                 (players ?g4))
              (currentPlayerIndex ?g4) (newJokerDeclarations ?st4) = Inr (players gs4)"
    by auto
  from k4(4) f4 have "map score (players gs4) = [48, 2]"
    by (simp add: example_loops)
  with k4 have r4: "\<exists>app' gs'. botTurn example_bot_knocks = Inr app' \<and> gameState app' = Some gs' \<and>
      turnPhase gs' = ROUND_OVER \<and> map score (players gs') = [48, 2]"
    by auto
  from p1 k1 r2 r3 r4 example_loops(2,4) show ?thesis by simp
qed

section \<open>The end of a round: game over, or the next round\<close>

text \<open>
  The winner's reduce keeps \<open>prev\<close> only when its score is strictly lower, so it returns a
  player of minimum score and, among those, the last one in the list.
\<close>

lemma reduce_last_minimum:
  fixes x :: Player
  defines "f \<equiv> (\<lambda>prev curr. if score prev < score curr then prev else curr)"
  shows "\<exists>i < length (x # rest). foldl f x rest = (x # rest) ! i \<and>
           (\<forall>j < length (x # rest). score ((x # rest) ! i) \<le> score ((x # rest) ! j)) \<and>
           (\<forall>j < length (x # rest). score ((x # rest) ! j) = score ((x # rest) ! i) \<longrightarrow> j \<le> i)"
proof (induction rest rule: rev_induct)
  case Nil
  then show ?case by simp
next
  case (snoc y rest)
  then obtain i where i: "i < length (x # rest)" "foldl f x rest = (x # rest) ! i"
    and mn: "\<forall>j < length (x # rest). score ((x # rest) ! i) \<le> score ((x # rest) ! j)"
    and lst: "\<forall>j < length (x # rest). score ((x # rest) ! j) = score ((x # rest) ! i) \<longrightarrow> j \<le> i"
    by blast
  let ?xs = "x # rest @ [y]"
  have old: "?xs ! j = (x # rest) ! j" if "j < length (x # rest)" for j
    using that nth_append[of "x # rest" "[y]" j] by simp
  have new: "?xs ! length (x # rest) = y"
    using nth_append_length[of "x # rest" y "[]"] by simp
  have split: "j < length (x # rest) \<or> j = length (x # rest)" if "j < length ?xs" for j
    using that by auto
  show ?case
  proof (cases "score ((x # rest) ! i) < score y")
    case True
    then have "foldl f x (rest @ [y]) = ?xs ! i"
      using i by (simp add: f_def old)
    moreover have "\<forall>j < length ?xs. score (?xs ! i) \<le> score (?xs ! j)"
      using True mn i old new split by (metis less_imp_le)
    moreover have "\<forall>j < length ?xs. score (?xs ! j) = score (?xs ! i) \<longrightarrow> j \<le> i"
      using True lst i old new split by (metis less_irrefl)
    moreover have "i < length ?xs" using i by simp
    ultimately show ?thesis by blast
  next
    case False
    let ?n = "length (x # rest)"
    from False have "foldl f x (rest @ [y]) = ?xs ! ?n"
      using i new by (simp add: f_def)
    moreover have "\<forall>j < length ?xs. score (?xs ! ?n) \<le> score (?xs ! j)"
    proof (intro allI impI)
      fix j assume "j < length ?xs"
      from split[OF this] show "score (?xs ! ?n) \<le> score (?xs ! j)"
      proof
        assume j: "j < length (x # rest)"
        with mn have "score ((x # rest) ! i) \<le> score ((x # rest) ! j)" by blast
        with False show ?thesis unfolding new old[OF j] by simp
      next
        assume "j = length (x # rest)"
        then show ?thesis by simp
      qed
    qed
    moreover have "\<forall>j < length ?xs. score (?xs ! j) = score (?xs ! ?n) \<longrightarrow> j \<le> ?n"
      by auto
    moreover have "?n < length ?xs" by simp
    ultimately show ?thesis by blast
  qed
qed

lemma startNextRound_new_round:
  assumes "gameState app = Some gs" and "roundSummary app = Some summary"
    and "\<not> isTutorial gs"
    and "\<not> (\<exists>p \<in> set (updatedPlayers summary). score p \<ge> MAX_SCORE)"
  shows "startNextRound app shuffled =
     Inr (app\<lparr>gameState := Some
            \<lparr>players = fst (deal (updatedPlayers summary) shuffled),
             currentPlayerIndex = round_g gs mod length (updatedPlayers summary),
             deck = snd (deal (updatedPlayers summary) shuffled),
             discardPile = [],
             boardSequences = initialSequences,
             turnPhase = ACTION,
             round_g = round_g gs + 1,
             winner = None,
             pendingPong = None,
             jokerDeclarations = [],
             isTutorial = False,
             tutorialStep = 0\<rparr>,
           roundSummary := None\<rparr>)"
  using assms
  by (simp add: startNextRound_def Let_def list_ex_iff split: prod.splits)

text \<open>
  Claim C8, as the code has it. MAX_SCORE is 250. Outside the tutorial, with a round
  summary present, startNextRound moves to GAME_OVER exactly when some player of the
  summary has a cumulative score of at least MAX_SCORE; the winner is then a player with
  the minimum cumulative score, and among several with that score it is the one with the
  highest index.
\<close>

theorem C8_game_over_winner:
  assumes "gameState app = Some gs" and "roundSummary app = Some summary"
    and "\<not> isTutorial gs"
  shows "MAX_SCORE = 250 \<and>
    (\<exists>app' gs'. startNextRound app shuffled = Inr app' \<and> gameState app' = Some gs' \<and>
       (turnPhase gs' = GAME_OVER \<longleftrightarrow>
          (\<exists>p \<in> set (updatedPlayers summary). score p \<ge> MAX_SCORE)) \<and>
       (turnPhase gs' = GAME_OVER \<longrightarrow>
          (\<exists>i < length (updatedPlayers summary).
             winner gs' = Some (updatedPlayers summary ! i) \<and>
             (\<forall>j < length (updatedPlayers summary).
                score (updatedPlayers summary ! i) \<le> score (updatedPlayers summary ! j)) \<and>
             (\<forall>j < length (updatedPlayers summary).
                score (updatedPlayers summary ! j) = score (updatedPlayers summary ! i)
                  \<longrightarrow> j \<le> i))))"
proof (rule conjI)
  show "MAX_SCORE = 250" by (simp add: MAX_SCORE_def)
next
  let ?ups = "updatedPlayers summary"
  let ?f = "\<lambda>prev curr. if score prev < score curr then prev else curr"
  show "\<exists>app' gs'. startNextRound app shuffled = Inr app' \<and> gameState app' = Some gs' \<and>
       (turnPhase gs' = GAME_OVER \<longleftrightarrow> (\<exists>p \<in> set ?ups. score p \<ge> MAX_SCORE)) \<and>
       (turnPhase gs' = GAME_OVER \<longrightarrow>
          (\<exists>i < length ?ups. winner gs' = Some (?ups ! i) \<and>
             (\<forall>j < length ?ups. score (?ups ! i) \<le> score (?ups ! j)) \<and>
             (\<forall>j < length ?ups. score (?ups ! j) = score (?ups ! i) \<longrightarrow> j \<le> i)))"
  proof (cases "\<exists>p \<in> set ?ups. score p \<ge> MAX_SCORE")
    case True
    then obtain x rest where xs: "?ups = x # rest" by (cases ?ups) auto
    from reduce_last_minimum[of x rest]
    obtain i where i: "i < length ?ups" "foldl ?f x rest = ?ups ! i"
      "\<forall>j < length ?ups. score (?ups ! i) \<le> score (?ups ! j)"
      "\<forall>j < length ?ups. score (?ups ! j) = score (?ups ! i) \<longrightarrow> j \<le> i"
      unfolding xs by blast
    have "startNextRound app shuffled =
        Inr (app\<lparr>gameState := Some (gs\<lparr>winner := Some (?ups ! i), turnPhase := GAME_OVER\<rparr>),
                roundSummary := None\<rparr>)"
      using assms True i(2)
      by (simp add: startNextRound_def Let_def list_ex_iff reduce_def xs)
    with True i show ?thesis by auto
  next
    case False
    from startNextRound_new_round[OF assms False, of shuffled] False
    show ?thesis by auto
  qed
qed

text \<open>
  Scores 10, 10 and 300: the game is over and the winner is player 1, not player 0.
\<close>

lemma example_round_over_next:
  "startNextRound example_round_over [] =
     Inr (example_round_over\<lparr>gameState := Some (example_game\<lparr>players := example_tied,
              turnPhase := GAME_OVER, winner := Some (example_bot\<lparr>score := 10\<rparr>)\<rparr>),
            roundSummary := None\<rparr>)"
  by (simp add: startNextRound_def example_round_over_def example_app_def example_game_def
      example_tied_def Let_def MAX_SCORE_def reduce_def example_human_def example_bot_def)

theorem C8_game_over_winner_witness:
  "gameState example_round_over
     = Some (example_game\<lparr>players := example_tied, turnPhase := ROUND_OVER\<rparr>) \<and>
   roundSummary example_round_over
     = Some \<lparr>roundPoints = [10, 10, 300], previousScores = [0, 0, 0],
             updatedPlayers = example_tied, knockerIndex = 0\<rparr> \<and>
   \<not> isTutorial (example_game\<lparr>players := example_tied, turnPhase := ROUND_OVER\<rparr>) \<and>
   (\<exists>app' gs'. startNextRound example_round_over [] = Inr app' \<and> gameState app' = Some gs' \<and>
      turnPhase gs' = GAME_OVER \<and> winner gs' = Some (example_tied ! 1) \<and>
      score (example_tied ! 1) = 10)"
proof -
  let ?gs = "example_game\<lparr>players := example_tied, turnPhase := ROUND_OVER\<rparr>"
  let ?sm = "\<lparr>roundPoints = [10, 10, 300], previousScores = [0, 0, 0],
             updatedPlayers = example_tied, knockerIndex = 0\<rparr>"
  have a: "gameState example_round_over = Some ?gs" "roundSummary example_round_over = Some ?sm"
    "\<not> isTutorial ?gs"
    by (simp_all add: example_round_over_def example_game_def)
  from C8_game_over_winner [OF a, of "[]"]
  obtain app' gs' where r: "startNextRound example_round_over [] = Inr app'"
    "gameState app' = Some gs'"
    "turnPhase gs' = GAME_OVER \<longleftrightarrow> (\<exists>p \<in> set (updatedPlayers ?sm). score p \<ge> MAX_SCORE)"
    by blast
  have "\<exists>p \<in> set (updatedPlayers ?sm). score p \<ge> MAX_SCORE"
    by (simp add: example_tied_def MAX_SCORE_def)
  with r have go: "turnPhase gs' = GAME_OVER" by blast
  from r(1,2) example_round_over_next
  have "winner gs' = Some (example_bot\<lparr>score := 10\<rparr>)" by auto
  then have "winner gs' = Some (example_tied ! 1)" "score (example_tied ! 1) = 10"
    by (simp_all add: example_tied_def)
  with r go a show ?thesis by auto
qed

text \<open>
  The tie-break the specification states (lowest index) fails on the same state: players
  0 and 1 both have the minimum score 10, and the winner stored is player 1.
\<close>

theorem C8_counterexample:
  "startNextRound example_round_over [] =
     Inr (example_round_over\<lparr>gameState := Some (example_game\<lparr>players := example_tied,
              turnPhase := GAME_OVER, winner := Some (example_tied ! 1)\<rparr>),
            roundSummary := None\<rparr>) \<and>
   map score example_tied = [10, 10, 300] \<and>
   example_tied ! 1 \<noteq> example_tied ! 0"
  using example_round_over_next
  by (simp add: example_tied_def example_human_def example_bot_def)

text \<open>What the deal gives each player, and what it leaves of the deck.\<close>

lemma deal_Cons:
  "deal (p # ps) d =
     (p\<lparr>hand := sort_key sortValue (take 7 d), melds := []\<rparr> # fst (deal ps (drop 7 d)),
      snd (deal ps (drop 7 d)))"
  by (simp add: Let_def split: prod.splits)

lemma deal_players:
  "length (fst (deal ps d)) = length ps \<and>
   map score (fst (deal ps d)) = map score ps \<and>
   (\<forall>p \<in> set (fst (deal ps d)). melds p = []) \<and>
   snd (deal ps d) = drop (7 * length ps) d"
proof (induction ps arbitrary: d)
  case Nil
  then show ?case by simp
next
  case (Cons p ps)
  from Cons[of "drop 7 d"] show ?case
    unfolding deal_Cons by (simp add: add.commute)
qed

lemma deal_hand:
  "i < length ps \<Longrightarrow>
   hand (fst (deal ps d) ! i) = sort_key sortValue (take 7 (drop (7 * i) d))"
proof (induction ps arbitrary: d i)
  case Nil
  then show ?case by simp
next
  case (Cons p ps)
  show ?case
  proof (cases i)
    case 0
    then show ?thesis unfolding deal_Cons by simp
  next
    case (Suc k)
    with Cons.prems have "k < length ps" by simp
    from Cons.IH[OF this, of "drop 7 d"] Suc show ?thesis
      unfolding deal_Cons by (simp add: add.commute)
  qed
qed

lemma roundScore_no_declarations: "roundScore [] p = calculateHandPoints (hand p)"
  by (simp add: roundScore_eq isDeclared_def)

text \<open>
  Claim C10. When no player has reached MAX_SCORE (outside the tutorial, with a round
  summary present), startNextRound builds a state whose jokerDeclarations list is empty,
  whose board is the starting board and whose discard pile is empty; every player gets
  the next seven cards of the new deck (sorted) and no melds, and the deck is what is left.
  Scored against the declarations of the new state, every hand counts its plain hand
  points: no declaration of the round before adds its 30.
\<close>

theorem C10_next_round_resets_declarations:
  assumes "gameState app = Some gs" and "roundSummary app = Some summary"
    and "\<not> isTutorial gs"
    and "\<not> (\<exists>p \<in> set (updatedPlayers summary). score p \<ge> MAX_SCORE)"
  shows "\<exists>app' gs'. startNextRound app shuffled = Inr app' \<and> gameState app' = Some gs' \<and>
     jokerDeclarations gs' = [] \<and>
     boardSequences gs' = initialSequences \<and> discardPile gs' = [] \<and>
     deck gs' = drop (7 * length (updatedPlayers summary)) shuffled \<and>
     length (players gs') = length (updatedPlayers summary) \<and>
     (\<forall>i < length (players gs').
        hand (players gs' ! i) = sort_key sortValue (take 7 (drop (7 * i) shuffled)) \<and>
        melds (players gs' ! i) = [] \<and>
        roundScore (jokerDeclarations gs') (players gs' ! i)
          = calculateHandPoints (hand (players gs' ! i)))"
proof -
  let ?ups = "updatedPlayers summary"
  note d = deal_players[of ?ups shuffled]
  have "\<forall>i < length (fst (deal ?ups shuffled)).
        hand (fst (deal ?ups shuffled) ! i) = sort_key sortValue (take 7 (drop (7 * i) shuffled)) \<and>
        melds (fst (deal ?ups shuffled) ! i) = [] \<and>
        roundScore [] (fst (deal ?ups shuffled) ! i)
          = calculateHandPoints (hand (fst (deal ?ups shuffled) ! i))"
    using d deal_hand[of _ ?ups shuffled] by (simp add: roundScore_no_declarations)
  with startNextRound_new_round[OF assms, of shuffled] d show ?thesis by simp
qed

text \<open>
  The round before ended with the two of clubs declared. In the next round player 0 is
  dealt the ace of hearts and the two of clubs: 3 points against the new state's
  declarations, where the old list would have given 33.
\<close>

theorem C10_next_round_resets_declarations_witness:
  "gameState example_next_round = Some (example_game\<lparr>
          players := [example_knocker\<lparr>score := 16\<rparr>, example_opponent],
          turnPhase := ROUND_OVER, jokerDeclarations := two_of_clubs_declared\<rparr>) \<and>
   roundSummary example_next_round = Some \<lparr>roundPoints = [6, 0], previousScores = [10, 20],
          updatedPlayers = [example_knocker\<lparr>score := 16\<rparr>, example_opponent],
          knockerIndex = 0\<rparr> \<and>
   (\<exists>app' gs'. startNextRound example_next_round example_new_deck = Inr app' \<and>
      gameState app' = Some gs' \<and> jokerDeclarations gs' = [] \<and>
      hand (players gs' ! 0) = [mkCard ''n2'' HEARTS ACE False, mkCard ''n1'' CLUBS TWO False] \<and>
      roundScore (jokerDeclarations gs') (players gs' ! 0) = 3 \<and>
      roundScore two_of_clubs_declared (players gs' ! 0) = 33)"
proof -
  let ?ups = "[example_knocker\<lparr>score := 16\<rparr>, example_opponent]"
  let ?gs = "example_game\<lparr>players := ?ups,
          turnPhase := ROUND_OVER, jokerDeclarations := two_of_clubs_declared\<rparr>"
  let ?sm = "\<lparr>roundPoints = [6, 0], previousScores = [10, 20],
          updatedPlayers = ?ups, knockerIndex = 0\<rparr>"
  have a: "gameState example_next_round = Some ?gs" "roundSummary example_next_round = Some ?sm"
    "\<not> isTutorial ?gs"
    "\<not> (\<exists>p \<in> set (updatedPlayers ?sm). score p \<ge> MAX_SCORE)"
    by (simp_all add: example_next_round_def example_game_def MAX_SCORE_def
        example_opponent_def)
  from C10_next_round_resets_declarations [OF a, of example_new_deck]
  obtain app' gs' where r: "startNextRound example_next_round example_new_deck = Inr app'"
    "gameState app' = Some gs'" "jokerDeclarations gs' = []"
    "length (players gs') = length (updatedPlayers ?sm)"
    "\<forall>i < length (players gs').
        hand (players gs' ! i) = sort_key sortValue (take 7 (drop (7 * i) example_new_deck)) \<and>
        melds (players gs' ! i) = [] \<and>
        roundScore (jokerDeclarations gs') (players gs' ! i)
          = calculateHandPoints (hand (players gs' ! i))"
    by blast
  from r(4) have "0 < length (players gs')" by simp
  with r(5) have h: "hand (players gs' ! 0) = sort_key sortValue (take 7 (drop (7 * 0) example_new_deck))"
    and s: "roundScore (jokerDeclarations gs') (players gs' ! 0)
          = calculateHandPoints (hand (players gs' ! 0))"
    by blast+
  have e: "sort_key sortValue (take 7 (drop (7 * 0) example_new_deck))
      = [mkCard ''n2'' HEARTS ACE False, mkCard ''n1'' CLUBS TWO False]"
    by code_simp
  have p: "calculateHandPoints [mkCard ''n2'' HEARTS ACE False, mkCard ''n1'' CLUBS TWO False] = 3"
    by code_simp
  have p2: "int (length (filter (\<lambda>c. \<not> isJoker c \<and> isDeclared two_of_clubs_declared c)
      [mkCard ''n2'' HEARTS ACE False, mkCard ''n1'' CLUBS TWO False])) = 1"
    by code_simp
  have q: "roundScore two_of_clubs_declared (players gs' ! 0) = 33"
    unfolding roundScore_eq h[unfolded e] p p2 by simp
  from a r(1-3) h[unfolded e] s[unfolded h e p] q show ?thesis by auto
qed

section \<open>Termination of the bot's play loop\<close>

lemma botStep_moves: "botStep st = Some st' \<Longrightarrow> movesMade st' = movesMade st + 1"
  by (auto simp: botStep_def botMeld_def Let_def split: option.splits)

lemma botLoop_exit: "botStep (botLoop st) = None"
proof (induction st rule: botLoop.induct)
  case (1 st)
  then show ?case
    by (cases "botStep st") (simp_all add: botLoop.simps[of st])
qed

lemma botLoop_moves:
  "movesMade st \<le> movesMade (botLoop st) \<and>
   movesMade (botLoop st) + length (newHand (botLoop st)) \<le> movesMade st + length (newHand st)"
proof (induction st rule: botLoop.induct)
  case (1 st)
  show ?case
  proof (cases "botStep st")
    case None
    then show ?thesis by (simp add: botLoop.simps[of st])
  next
    case (Some st')
    from "1"[OF Some] botStep_moves[OF Some] botStep_hand_shrinks[OF Some] Some
    show ?thesis by (simp add: botLoop.simps[of st])
  qed
qed

lemma botLoop_fuel:
  "botLoopFuel (Suc (movesMade (botLoop st) - movesMade st)) st = Some (botLoop st) \<and>
   botLoopFuel (movesMade (botLoop st) - movesMade st) st = None"
proof (induction st rule: botLoop.induct)
  case (1 st)
  show ?case
  proof (cases "botStep st")
    case None
    then show ?thesis by (simp add: botLoop.simps[of st])
  next
    case (Some st')
    have l: "botLoop st = botLoop st'" using Some by (simp add: botLoop.simps[of st])
    from botLoop_moves[of st'] botStep_moves[OF Some]
    have "movesMade (botLoop st') - movesMade st = Suc (movesMade (botLoop st') - movesMade st')"
      by linarith
    with "1"[OF Some] Some show ?thesis by (simp add: l)
  qed
qed

text \<open>
  Claim C9, as the code has it. The play loop is a total function (its termination is
  proved where \<open>botLoop\<close> is defined, by the size of the hand). Every pass of the body that
  makes a play (a meld, a single card or a joker placement) strictly shrinks the hand and
  counts one move; the loop stops at the first pass that makes no play, so in the state it
  returns no play applies. The number of passes that make a play is at most the size of
  the hand at the start, and the body runs exactly once more than that: a budget of that
  many passes plus one returns the result, a budget of that many passes does not, and a
  budget of the hand size plus one is always enough.
\<close>

theorem C9_botLoop_terminates:
  "(botStep st = Some st' \<longrightarrow>
      length (newHand st') < length (newHand st) \<and> movesMade st' = movesMade st + 1) \<and>
   botStep (botLoop st) = None \<and>
   movesMade (botLoop st) - movesMade st \<le> length (newHand st) \<and>
   movesMade (botLoop st) - movesMade st + length (newHand (botLoop st)) \<le> length (newHand st) \<and>
   botLoopFuel (Suc (movesMade (botLoop st) - movesMade st)) st = Some (botLoop st) \<and>
   botLoopFuel (movesMade (botLoop st) - movesMade st) st = None \<and>
   botLoopFuel (Suc (length (newHand st))) st = Some (botLoop st)"
proof -
  have step: "botStep st = Some st' \<longrightarrow>
      length (newHand st') < length (newHand st) \<and> movesMade st' = movesMade st + 1"
    using botStep_hand_shrinks botStep_moves by blast
  have bound: "movesMade (botLoop st) - movesMade st + length (newHand (botLoop st))
      \<le> length (newHand st)"
    using botLoop_moves[of st] by linarith
  have mono: "botLoopFuel n s = Some r \<Longrightarrow> botLoopFuel (Suc n) s = Some r" for n s r
  proof (induction n arbitrary: s)
    case 0
    then show ?case by simp
  next
    case (Suc n)
    then show ?case by (cases "botStep s") auto
  qed
  have more: "botLoopFuel n s = Some r \<Longrightarrow> n \<le> k \<Longrightarrow> botLoopFuel k s = Some r" for n k s r
  proof (induction k)
    case 0
    then show ?case by simp
  next
    case (Suc k)
    show ?case
    proof (cases "n \<le> k")
      case True
      from mono[OF Suc.IH[OF Suc.prems(1) True]] show ?thesis .
    next
      case False
      with Suc.prems have "n = Suc k" by simp
      with Suc.prems(1) show ?thesis by simp
    qed
  qed
  from bound have "Suc (movesMade (botLoop st) - movesMade st) \<le> Suc (length (newHand st))"
    by simp
  from more[OF botLoop_fuel[of st, THEN conjunct1] this]
  have enough: "botLoopFuel (Suc (length (newHand st))) st = Some (botLoop st)" .
  from step botLoop_exit[of st] bound botLoop_fuel[of st] enough show ?thesis
    by simp
qed

text \<open>
  The bot holds the six of hearts, the seven of spades, a joker and the nine of clubs,
  with hearts at 7: three passes play the six, the seven and the joker (as the eight of
  hearts), the fourth finds nothing for the nine of clubs.
\<close>

lemma example_loop_moves:
  "movesMade (botLoop example_bot_state) = 3"
  "movesMade example_bot_state = 0"
  "length (newHand example_bot_state) = 4"
  "length (newHand example_bot_after_six) = 3"
  "movesMade example_bot_after_six = 1"
  by code_simp+

theorem C9_botLoop_terminates_witness:
  "botStep example_bot_state = Some example_bot_after_six \<and>
   length (newHand example_bot_after_six) < length (newHand example_bot_state) \<and>
   length (newHand example_bot_state) = 4 \<and>
   movesMade (botLoop example_bot_state) = 3 \<and>
   newHand (botLoop example_bot_state) = [mkCard ''c9'' CLUBS NINE False] \<and>
   botStep (botLoop example_bot_state) = None \<and>
   botLoopFuel 4 example_bot_state = Some (botLoop example_bot_state) \<and>
   botLoopFuel 3 example_bot_state = None \<and>
   botLoopFuel 5 example_bot_state = Some (botLoop example_bot_state)"
  using C9_botLoop_terminates [of example_bot_state example_bot_after_six] bot_six
    example_loops(1)
  by (simp add: example_loop_moves)

text \<open>
  The bound as the specification states it (the iterations are at most the hand size)
  fails by one: a hand of one card, the six of hearts with hearts at 7, takes two passes
  of the body, one that plays the card and one that finds the hand empty.
\<close>

theorem C9_counterexample:
  "length (newHand example_single_six) = 1 \<and>
   movesMade (botLoop example_single_six) - movesMade example_single_six = 1 \<and>
   botLoopFuel 1 example_single_six = None \<and>
   botLoopFuel 2 example_single_six = Some (botLoop example_single_six)"
proof -
  have m: "movesMade (botLoop example_single_six) - movesMade example_single_six = 1"
    "length (newHand example_single_six) = 1"
    by code_simp+
  from botLoop_fuel[of example_single_six] show ?thesis
    unfolding m by (simp add: m numeral_2_eq_2)
qed

end
